theory Spec2Isabelle
  imports Main "HOL-Library.Word"
begin

section \<open>PyGMC: the configuration codec and the command layer of \<open>pygmc.py\<close>\<close>

text \<open>
  The development embeds \<open>src/pygmc.py\<close>. Python's \<open>bytes\<close> is a list of 8-bit words, an
  \<open>int\<close> is an unbounded integer, a \<open>str\<close> is the list of its code points. Every exception
  of the source is a value of \<open>error\<close>, and a function that can raise returns \<open>error + 'a\<close>.
\<close>

type_synonym byte = "8 word"
type_synonym bytes = "byte list"
type_synonym str = "nat list"

datatype error =
    StreamError            \<comment> \<open>construct: the stream ends early, or a raw field of the wrong length\<close>
  | FormatFieldError       \<comment> \<open>construct: \<open>struct.pack\<close> refused the value of an \<open>Int8ub/16ub/32ub\<close>\<close>
  | IntegerError           \<comment> \<open>construct: \<open>Int24ub\<close> (a \<open>BytesInteger\<close>) refused the value\<close>
  | StringError            \<comment> \<open>construct: a text field that is no \<open>str\<close>, or that the codec refuses\<close>
  | PaddingError           \<comment> \<open>construct: a text field longer than its declared width\<close>
  | KeyError               \<comment> \<open>a field missing from the value given to \<open>build\<close>\<close>
  | UnicodeEncodeError     \<comment> \<open>\<open>str.encode('ascii')\<close> on a code point above 127\<close>
  | UnicodeDecodeError     \<comment> \<open>\<open>bytes.decode('ascii')\<close> on a byte above 127\<close>
  | ChrValueError          \<comment> \<open>\<open>chr(x)\<close> with \<open>x\<close> outside \<open>range(0x110000)\<close>\<close>
  | OverflowError          \<comment> \<open>\<open>chr(x)\<close> with \<open>x\<close> that does not fit a C \<open>int\<close>\<close>
  | IntegerValueError      \<comment> \<open>the \<open>ValueError\<close> of construct's \<open>integer2bytes\<close>: the number does not fit\<close>
  | UnpackValueError       \<comment> \<open>tuple unpacking with the wrong number of values\<close>
  | DatetimeValueError     \<comment> \<open>\<open>datetime.datetime(...)\<close> with a component out of range\<close>
  | StructError            \<comment> \<open>\<open>struct.error\<close> of \<open>struct.pack\<close> / \<open>struct.unpack\<close>\<close>
  | IndexError
  | StopIteration
  | CsvError               \<comment> \<open>\<open>csv.Error\<close>\<close>
  | ExpectedResponse bytes bytes
      \<comment> \<open>the \<open>ValueError("Expected response '{}' but got '{}'")\<close> of \<open>send_command\<close>: the
          expected and the received bytes\<close>

datatype pyval =
    PyInt int
  | PyStr str
  | PyBytes bytes
  | PyTuple "int list"
  | PyNone

subsection \<open>The parts of the \<open>construct\<close> library that \<open>config_format\<close> uses\<close>

text \<open>
  \<open>construct\<close> is a library the source imports. Its constructs are modelled as the library
  documents and implements them (release 2.10.70): unsigned big-endian integers of 1, 2, 3 and 4
  bytes, \<open>PaddedString(n, 'ascii')\<close>, \<open>Bytes(n)\<close> and \<open>Padding(n, pattern)\<close>. The encoding
  argument of \<open>PaddedString\<close> is \<open>'ascii'\<close> at each of its uses.
\<close>

datatype construct =
    Int8ub
  | Int16ub
  | Int24ub
  | Int32ub
  | PaddedString nat
  | Bytes nat
  | Padding nat byte

fun sizeof :: "construct \<Rightarrow> nat" where
  "sizeof Int8ub = 1"
| "sizeof Int16ub = 2"
| "sizeof Int24ub = 3"
| "sizeof Int32ub = 4"
| "sizeof (PaddedString n) = n"
| "sizeof (Bytes n) = n"
| "sizeof (Padding n p) = n"

text \<open>\<open>int.from_bytes(bs, 'big')\<close> and \<open>int.to_bytes(n, 'big')\<close>.\<close>

definition from_bytes_be :: "bytes \<Rightarrow> int" where
  "from_bytes_be bs = foldl (\<lambda>acc b. acc * 256 + uint b) 0 bs"

fun to_bytes_be :: "nat \<Rightarrow> int \<Rightarrow> bytes" where
  "to_bytes_be 0 v = []"
| "to_bytes_be (Suc n) v = to_bytes_be n (v div 256) @ [word_of_int (v mod 256)]"

text \<open>\<open>bytes.decode('ascii')\<close> and \<open>str.encode('ascii')\<close>.\<close>

definition decode_ascii :: "bytes \<Rightarrow> error + str" where
  "decode_ascii bs =
     (if list_all (\<lambda>b. b < 0x80) bs then Inr (map unat bs) else Inl UnicodeDecodeError)"

definition encode_ascii :: "str \<Rightarrow> error + bytes" where
  "encode_ascii s =
     (if list_all (\<lambda>c. c < 128) s then Inr (map word_of_nat s) else Inl UnicodeEncodeError)"

text \<open>\<open>data.rstrip(b'\x00')\<close>, the parse side of \<open>NullStripped\<close>.\<close>

definition rstrip_null :: "bytes \<Rightarrow> bytes" where
  "rstrip_null bs = rev (dropWhile (\<lambda>b. b = 0) (rev bs))"

text \<open>
  Building an unsigned integer of \<open>n\<close> bytes: the value has to be an \<open>int\<close> in
  \<open>range(256 ** n)\<close>; \<open>e\<close> is the error of the construct that refuses it.
\<close>

definition build_int :: "error \<Rightarrow> nat \<Rightarrow> pyval \<Rightarrow> error + bytes" where
  "build_int e n obj =
     (case obj of
        PyInt v \<Rightarrow> if 0 \<le> v \<and> v < 256 ^ n then Inr (to_bytes_be n v) else Inl e
      | _ \<Rightarrow> Inl e)"

text \<open>
  \<open>parse_con c stream\<close> reads one field at the head of the stream and returns its value with
  the rest of the stream. A read of \<open>n\<close> bytes from a stream that holds fewer is a
  \<open>StreamError\<close>.
  \<^item> \<open>PaddedString n\<close> is \<open>StringEncoded(FixedSized(n, NullStripped(GreedyBytes)), 'ascii')\<close>: it
    reads \<open>n\<close> bytes, strips the trailing null bytes and decodes the rest as ASCII. The
    error of the codec is raised as a \<open>StringError\<close>, on parsing and on building alike
    (older releases let the \<open>UnicodeDecodeError\<close> and the \<open>UnicodeEncodeError\<close> through).
  \<^item> \<open>Padding n p\<close> is \<open>Padded(n, Pass, p)\<close>: it reads \<open>n\<close> bytes, looks at none of them and
    yields \<open>None\<close>.
\<close>

definition parse_con :: "construct \<Rightarrow> bytes \<Rightarrow> error + (pyval \<times> bytes)" where
  "parse_con c stream =
     (if length stream < sizeof c then Inl StreamError
      else
        let data = take (sizeof c) stream; rest = drop (sizeof c) stream in
        (case c of
           PaddedString n \<Rightarrow>
             (case decode_ascii (rstrip_null data) of
                Inl e \<Rightarrow> Inl StringError
              | Inr s \<Rightarrow> Inr (PyStr s, rest))
         | Bytes n \<Rightarrow> Inr (PyBytes data, rest)
         | Padding n p \<Rightarrow> Inr (PyNone, rest)
         | _ \<Rightarrow> Inr (PyInt (from_bytes_be data), rest)))"

text \<open>
  \<open>build_con c obj\<close> is the bytes one field writes.
  \<^item> \<open>PaddedString n\<close> wants a \<open>str\<close> (\<open>StringError\<close> otherwise), encodes it as ASCII
    (\<open>StringError\<close> when the codec refuses a character) and pads it with null bytes to
    \<open>n\<close> bytes; a text whose encoding is longer than \<open>n\<close> is a \<open>PaddingError\<close>.
  \<^item> \<open>Bytes n\<close> wants \<open>n\<close> bytes; an \<open>int\<close> is converted to \<open>n\<close> big-endian bytes first,
    by \<open>integer2bytes\<close>, whose \<open>ValueError\<close> for a number that does not fit is not wrapped.
  \<^item> \<open>Padding n p\<close> ignores the value and writes \<open>n\<close> copies of the pattern byte.
\<close>

definition build_con :: "construct \<Rightarrow> pyval \<Rightarrow> error + bytes" where
  "build_con c obj =
     (case c of
        Int8ub \<Rightarrow> build_int FormatFieldError 1 obj
      | Int16ub \<Rightarrow> build_int FormatFieldError 2 obj
      | Int24ub \<Rightarrow> build_int IntegerError 3 obj
      | Int32ub \<Rightarrow> build_int FormatFieldError 4 obj
      | PaddedString n \<Rightarrow>
          (case obj of
             PyStr s \<Rightarrow>
               (case encode_ascii s of
                  Inl e \<Rightarrow> Inl StringError
                | Inr data \<Rightarrow>
                    if n < length data then Inl PaddingError
                    else Inr (data @ replicate (n - length data) 0))
           | _ \<Rightarrow> Inl StringError)
      | Bytes n \<Rightarrow>
          (case obj of
             PyBytes data \<Rightarrow> if length data = n then Inr data else Inl StreamError
           | PyInt v \<Rightarrow> build_int IntegerValueError n obj
           | _ \<Rightarrow> Inl StringError)
      | Padding n p \<Rightarrow> Inr (replicate n p))"

text \<open>
  A \<open>Struct\<close> is the list of its named fields. The value it parses to, and builds from, is a
  \<open>Container\<close>: a dictionary from field names to values.
  What a \<open>Container\<close> holds under other keys (a parsed one
  keeps its stream under \<open>_io\<close>) is never looked at by \<open>build\<close> and is left out.
\<close>

type_synonym struct = "(string \<times> construct) list"
type_synonym container = "string \<rightharpoonup> pyval"

text \<open>
  \<open>Struct._parse\<close>: the fields in declared order, each reading at the cursor the previous one
  left, each value stored under the field's name.
\<close>

fun struct_parse :: "struct \<Rightarrow> bytes \<Rightarrow> container \<Rightarrow> error + (container \<times> bytes)" where
  "struct_parse [] stream obj = Inr (obj, stream)"
| "struct_parse ((name, sc) # subcons) stream obj =
     (case parse_con sc stream of
        Inl e \<Rightarrow> Inl e
      | Inr (subobj, rest) \<Rightarrow> struct_parse subcons rest (obj(name \<mapsto> subobj)))"

text \<open>
  \<open>Struct._build\<close>: the fields in declared order, each appending to the stream. A field
  that builds from \<open>None\<close> (here: \<open>Padding\<close>) is looked up with \<open>obj.get(name)\<close>; every other
  field with \<open>obj[name]\<close>, a \<open>KeyError\<close> when the name is missing.
\<close>

fun flagbuildnone :: "construct \<Rightarrow> bool" where
  "flagbuildnone (Padding n p) = True"
| "flagbuildnone _ = False"

fun struct_build :: "struct \<Rightarrow> container \<Rightarrow> bytes \<Rightarrow> error + bytes" where
  "struct_build [] obj stream = Inr stream"
| "struct_build ((name, sc) # subcons) obj stream =
     (case (if flagbuildnone sc
            then Inr (case obj name of None \<Rightarrow> PyNone | Some v \<Rightarrow> v)
            else (case obj name of None \<Rightarrow> Inl KeyError | Some v \<Rightarrow> Inr v)) of
        Inl e \<Rightarrow> Inl e
      | Inr subobj \<Rightarrow>
          (case build_con sc subobj of
             Inl e \<Rightarrow> Inl e
           | Inr data \<Rightarrow> struct_build subcons obj (stream @ data)))"

text \<open>
  \<open>Construct.parse(data)\<close> parses from the start of \<open>data\<close> and does not look at what follows
  the last field; \<open>Construct.build(obj)\<close> returns the stream the fields wrote.
\<close>

definition parse :: "struct \<Rightarrow> bytes \<Rightarrow> error + container" where
  "parse st data =
     (case struct_parse st data Map.empty of Inl e \<Rightarrow> Inl e | Inr (obj, rest) \<Rightarrow> Inr obj)"

definition build :: "struct \<Rightarrow> container \<Rightarrow> error + bytes" where
  "build st obj = struct_build st obj []"

subsection \<open>The configuration record\<close>

definition config_format :: struct where
  "config_format =
    [(''power'', Int8ub),
     (''alarm'', Int8ub),
     (''speaker'', Int8ub),
     (''idle_display_mode'', Int8ub),
     (''back_light_timeout_seconds'', Int8ub),
     (''idle_title_display_mode'', Int8ub),
     (''alarm_CPM_value'', Int16ub),
     (''calib_CPM_0'', Int16ub),
     (''calib_uSv_0'', Int32ub),
     (''calib_CPM_1'', Int16ub),
     (''calib_uSv_1'', Int32ub),
     (''calib_CPM_2'', Int16ub),
     (''calib_uSv_2'', Int32ub),
     (''idle_text_state'', Int8ub),
     (''alarm_value_uSv'', Int32ub),
     (''alarm_type'', Int8ub),
     (''save_data_type'', Int8ub),
     (''swivel_display'', Int8ub),
     (''zoom'', Int32ub),
     (''SPI_data_save_address'', Int24ub),
     (''SPI_data_read_address'', Int24ub),
     (''power_saving_mode'', Int8ub),
     (''sensitivity_mode'', Int8ub),
     (''counter_delay'', Int16ub),
     (''display_contrast'', Int8ub),
     (''max_CPM'', Int16ub),
     (''unknown1'', Int8ub),
     (''large_font_mode'', Int8ub),
     (''LCD_back_light_level'', Int8ub),
     (''reverse_display_mode'', Int8ub),
     (''motion_detect'', Int8ub),
     (''battery_type'', Int8ub),
     (''baudrate'', Int8ub),
     (''CPM_speaker_on_off_calib'', Int8ub),
     (''graphic_drawing_mode'', Int8ub),
     (''LED_on_off'', Int8ub),
     (''unknown2'', Int8ub),
     (''save_threshold_value_uSv_m_nCPM'', Int16ub),
     (''save_threshold_mode'', Int8ub),
     (''save_threshold_value'', Int32ub),
     (''SSID'', PaddedString 64),
     (''password'', PaddedString 64),
     (''website'', PaddedString 32),
     (''URL'', PaddedString 32),
     (''user_ID'', PaddedString 32),
     (''counter_ID'', PaddedString 32),
     (''period'', Int8ub),
     (''WIFI_on_off'', Int8ub),
     (''text_status_mode'', Int8ub),
     (''fast_estimate_time'', Int8ub),
     (''third_party_output'', Int8ub),
     (''high_voltage_level_tube_1'', Int8ub),
     (''high_voltage_level_tube_2'', Int8ub),
     (''CPM_tube_mode'', Int8ub),
     (''CPM_tube_display'', Int8ub),
     (''voltage_display'', Int8ub),
     (''deadtime_enable'', Int8ub),
     (''deadtime_tube_1'', Int16ub),
     (''deadtime_tube_2'', Int16ub),
     (''medium_threshold'', Int16ub),
     (''high_threshold'', Int16ub),
     (''speaker_volume'', Int8ub),
     (''HV_reading'', Int8ub),
     (''target_HV'', Int16ub),
     (''HV_calib'', Int8ub),
     (''SS1'', Bytes 6),
     (''SS2'', Bytes 6),
     (''SS3'', Bytes 6),
     (''SS4'', Bytes 6),
     (''accuracy_display'', Int8ub),
     (''dose_alarm_0'', Int8ub),
     (''dose_alarm_1'', Int8ub),
     (''dose_alarm_2'', Int8ub),
     (''dose_alarm_3'', Int8ub),
     (''save_date_time'', Bytes 6),
     (''unused'', Padding 128 0xFF)]"

text \<open>The cursor after the last field of a table, starting from \<open>cursor\<close>.\<close>

fun walk :: "struct \<Rightarrow> nat \<Rightarrow> nat" where
  "walk [] cursor = cursor"
| "walk ((name, sc) # subcons) cursor = walk subcons (cursor + sizeof sc)"

text \<open>
  The streams \<open>Struct._parse\<close> accepts: at each field enough bytes are left, and the bytes
  of a text field are ASCII.
\<close>

fun decodable :: "struct \<Rightarrow> bytes \<Rightarrow> bool" where
  "decodable [] stream = True"
| "decodable ((name, sc) # subcons) stream =
     (sizeof sc \<le> length stream \<and>
      (case sc of PaddedString n \<Rightarrow> list_all (\<lambda>b. b < 0x80) (take n stream) | _ \<Rightarrow> True) \<and>
      decodable subcons (drop (sizeof sc) stream))"

subsection \<open>Byte strings, \<open>hex_byte\<close> and \<open>struct\<close>\<close>

text \<open>A bytes literal of the source, such as \<open>b'WCFG'\<close>; a \<open>str\<close> literal, such as \<open>'CWJAP?'\<close>.\<close>

definition ascii :: "string \<Rightarrow> bytes" where
  "ascii s = map (\<lambda>c. word_of_nat (of_char c)) s"

definition str_of :: "string \<Rightarrow> str" where
  "str_of s = map of_char s"

definition OK :: bytes where
  "OK = [0xAA]"

text \<open>
  \<open>chr(x)\<close>: the one-character string of code point \<open>x\<close>, for \<open>x\<close> in \<open>range(0x110000)\<close>.
  Outside that range it raises \<open>ValueError\<close>, and \<open>OverflowError\<close> when \<open>x\<close> does not even
  fit a C \<open>int\<close> (of 32 bits).
\<close>

definition chr :: "int \<Rightarrow> error + str" where
  "chr x =
     (if 0 \<le> x \<and> x < 0x110000 then Inr [nat x]
      else if - (2 ^ 31) \<le> x \<and> x < 2 ^ 31 then Inl ChrValueError
      else Inl OverflowError)"

text \<open>\<open>hex_byte = lambda x: chr(x).encode('ascii')\<close>\<close>

definition hex_byte :: "int \<Rightarrow> error + bytes" where
  "hex_byte x = (case chr x of Inl e \<Rightarrow> Inl e | Inr s \<Rightarrow> encode_ascii s)"

text \<open>
  The format strings of the source are \<open>'!I'\<close>, \<open>'!B'\<close>, \<open>'!H'\<close> and \<open>'!HHHx'\<close>: network byte
  order, standard sizes, no alignment. A format is the list of its codes after the \<open>!\<close>.
\<close>

datatype format_char = Fmt_B | Fmt_H | Fmt_I | Fmt_x

type_synonym format = "format_char list"

fun code_size :: "format_char \<Rightarrow> nat" where
  "code_size Fmt_B = 1"
| "code_size Fmt_H = 2"
| "code_size Fmt_I = 4"
| "code_size Fmt_x = 1"

definition calcsize :: "format \<Rightarrow> nat" where
  "calcsize fmt = sum_list (map code_size fmt)"

text \<open>\<open>struct.pack('!' + code, v)\<close> for one unsigned code.\<close>

definition struct_pack :: "format_char \<Rightarrow> int \<Rightarrow> error + bytes" where
  "struct_pack code v =
     (if code \<noteq> Fmt_x \<and> 0 \<le> v \<and> v < 256 ^ code_size code
      then Inr (to_bytes_be (code_size code) v) else Inl StructError)"

text \<open>
  \<open>struct.unpack(fmt, data)\<close>: the data must have exactly the size of the format; a pad
  byte \<open>x\<close> yields no value.
\<close>

fun unpack_fields :: "format \<Rightarrow> bytes \<Rightarrow> int list" where
  "unpack_fields [] data = []"
| "unpack_fields (Fmt_x # fmt) data = unpack_fields fmt (drop 1 data)"
| "unpack_fields (code # fmt) data =
     from_bytes_be (take (code_size code) data) # unpack_fields fmt (drop (code_size code) data)"

definition struct_unpack :: "format \<Rightarrow> bytes \<Rightarrow> error + int list" where
  "struct_unpack fmt data =
     (if length data = calcsize fmt then Inr (unpack_fields fmt data) else Inl StructError)"

text \<open>The number of values a format unpacks to: every code but the pad byte.\<close>

definition value_count :: "format \<Rightarrow> nat" where
  "value_count fmt = length (filter (\<lambda>code. code \<noteq> Fmt_x) fmt)"

subsection \<open>\<open>GMCConnection\<close>\<close>

text \<open>
  The serial port is the part of the world the commands act on. \<open>written\<close> is the log of
  the buffers given to \<open>write\<close> (here \<open>write_conn\<close>), oldest first. \<open>incoming\<close> is what the successive calls of
  \<open>read()\<close> will return: one byte of the device's answer per call, and the empty bytes
  when the timeout of 0.5 s passes with nothing received; once the list is used up the
  device is silent and every read times out. A write always succeeds (a write that times
  out is not modelled).
\<close>

record serial =
  written :: "bytes list"
  incoming :: "bytes list"

definition write_conn :: "bytes \<Rightarrow> serial \<Rightarrow> serial" where
  "write_conn ascii_data c = c\<lparr>written := written c @ [ascii_data]\<rparr>"

text \<open>
  \<open>read_all\<close>: \<open>buffer = b''; while new_data := self.connection.read(): buffer += new_data\<close>.
  The loop ends at the first empty read.
\<close>

fun read_all_loop :: "bytes list \<Rightarrow> bytes \<Rightarrow> bytes \<times> bytes list" where
  "read_all_loop [] buffer = (buffer, [])"
| "read_all_loop (new_data # later) buffer =
     (if new_data = [] then (buffer, later) else read_all_loop later (buffer @ new_data))"

definition read_all :: "serial \<Rightarrow> bytes \<times> serial" where
  "read_all c =
     (case read_all_loop (incoming c) [] of (buffer, later) \<Rightarrow> (buffer, c\<lparr>incoming := later\<rparr>))"

text \<open>
  \<open>send_command(command, response_format=None, expected_response=None)\<close>. An expected
  response that is \<open>None\<close> or empty is not checked (\<open>if expected_response and ...\<close>). A
  command returns its result, or the error it raised, together with the serial port as
  it left it.
\<close>

definition send_command ::
  "bytes \<Rightarrow> format option \<Rightarrow> bytes option \<Rightarrow> serial \<Rightarrow> (error + pyval) \<times> serial" where
  "send_command command response_format expected_response c =
     (let to_send = ascii ''<'' @ command @ ascii ''>>'' in
      case read_all (write_conn to_send c) of (response, c') \<Rightarrow>
        (case (case expected_response of
                 None \<Rightarrow> None
               | Some expected \<Rightarrow>
                   if expected \<noteq> [] \<and> response \<noteq> expected
                   then Some (ExpectedResponse expected response) else None) of
           Some e \<Rightarrow> (Inl e, c')
         | None \<Rightarrow>
             (case response_format of
                Some fmt \<Rightarrow>
                  (case struct_unpack fmt response of
                     Inl e \<Rightarrow> (Inl e, c')
                   | Inr unpacked \<Rightarrow>
                       if length unpacked = 1 then (Inr (PyInt (hd unpacked)), c')
                       else (Inr (PyTuple unpacked), c'))
              | None \<Rightarrow> (Inr (PyBytes response), c'))))"

subsection \<open>\<open>GMCGeigerCounter\<close>: configuration\<close>

definition get_config :: "serial \<Rightarrow> (error + container) \<times> serial" where
  "get_config c =
     (case send_command (ascii ''GETCFG'') None None c of
        (Inl e, c') \<Rightarrow> (Inl e, c')
      | (Inr (PyBytes raw_config), c') \<Rightarrow> (parse config_format raw_config, c')
      | (Inr other, c') \<Rightarrow> (Inl StringError, c'))"

definition write_config_byte :: "int \<Rightarrow> int \<Rightarrow> serial \<Rightarrow> (error + unit) \<times> serial" where
  "write_config_byte address data_byte c =
     (case struct_pack Fmt_H address of
        Inl e \<Rightarrow> (Inl e, c)
      | Inr address_bytes \<Rightarrow>
          (case struct_pack Fmt_B data_byte of
             Inl e \<Rightarrow> (Inl e, c)
           | Inr data_byte_bytes \<Rightarrow>
               (case send_command (ascii ''WCFG'' @ address_bytes @ data_byte_bytes)
                       None (Some OK) c of
                  (Inl e, c') \<Rightarrow> (Inl e, c')
                | (Inr r, c') \<Rightarrow> (Inr (), c'))))"

text \<open>\<open>for address, byte in enumerate(to_write): self.write_config_byte(address, byte)\<close>\<close>

fun set_config_loop :: "(nat \<times> byte) list \<Rightarrow> serial \<Rightarrow> (error + unit) \<times> serial" where
  "set_config_loop [] c = (Inr (), c)"
| "set_config_loop ((address, byte) # later) c =
     (case write_config_byte (int address) (uint byte) c of
        (Inl e, c') \<Rightarrow> (Inl e, c')
      | (Inr u, c') \<Rightarrow> set_config_loop later c')"

definition set_config :: "container \<Rightarrow> serial \<Rightarrow> (error + unit) \<times> serial" where
  "set_config config c =
     (case build config_format config of
        Inl e \<Rightarrow> (Inl e, c)
      | Inr to_write \<Rightarrow> set_config_loop (enumerate 0 to_write) c)"

definition alarm_on :: "serial \<Rightarrow> (error + unit) \<times> serial" where
  "alarm_on c =
     (case send_command (ascii ''ALARM1'') None (Some OK) c of
        (Inl e, c') \<Rightarrow> (Inl e, c')
      | (Inr r, c') \<Rightarrow> (Inr (), c'))"

subsection \<open>\<open>GMCGeigerCounter\<close>: date and time\<close>

text \<open>
  A \<open>datetime.datetime\<close> and its constructor, which raises \<open>ValueError\<close> unless the
  components name a moment of the calendar (years 1 to 9999). The record holds the six
  components the source reads and sets. A \<open>datetime\<close> of Python has a microsecond and a
  time zone as well; the source never looks at them, \<open>parse_datetime\<close> leaves them at
  \<open>0\<close> and \<open>None\<close>, and they are left out here. So two records that are equal stand for
  values of Python that agree in these six components, and nothing more is meant by a
  statement about a record.
\<close>

record datetime =
  year :: int
  month :: int
  day :: int
  hour :: int
  minute :: int
  second :: int

definition is_leap :: "int \<Rightarrow> bool" where
  "is_leap y = (y mod 4 = 0 \<and> (y mod 100 \<noteq> 0 \<or> y mod 400 = 0))"

definition days_in_month :: "int \<Rightarrow> int \<Rightarrow> int" where
  "days_in_month y m =
     (if m = 2 then (if is_leap y then 29 else 28)
      else if m = 4 \<or> m = 6 \<or> m = 9 \<or> m = 11 then 30 else 31)"

definition valid_datetime :: "datetime \<Rightarrow> bool" where
  "valid_datetime dt =
     (1 \<le> year dt \<and> year dt \<le> 9999 \<and> 1 \<le> month dt \<and> month dt \<le> 12 \<and>
      1 \<le> day dt \<and> day dt \<le> days_in_month (year dt) (month dt) \<and>
      0 \<le> hour dt \<and> hour dt \<le> 23 \<and> 0 \<le> minute dt \<and> minute dt \<le> 59 \<and>
      0 \<le> second dt \<and> second dt \<le> 59)"

definition datetime_datetime :: "int \<Rightarrow> int \<Rightarrow> int \<Rightarrow> int \<Rightarrow> int \<Rightarrow> int \<Rightarrow> error + datetime" where
  "datetime_datetime y m d h mi s =
     (let dt = \<lparr>year = y, month = m, day = d, hour = h, minute = mi, second = s\<rparr>
      in if valid_datetime dt then Inr dt else Inl DatetimeValueError)"

text \<open>
  \<open>y, m, d, h, mi, s = map(lambda b: ord(chr(b)), timestamp_bytes[:6])\<close>: a byte of a
  \<open>bytes\<close> is an \<open>int\<close> below 256, on which \<open>ord(chr(b))\<close> is \<open>b\<close>; fewer than six bytes
  cannot be unpacked into the six names.
\<close>

definition parse_datetime :: "bytes \<Rightarrow> error + datetime" where
  "parse_datetime timestamp_bytes =
     (case map uint (take 6 timestamp_bytes) of
        [y, m, d, h, mi, s] \<Rightarrow> datetime_datetime (y + 2000) m d h mi s
      | _ \<Rightarrow> Inl UnpackValueError)"

definition get_datetime :: "serial \<Rightarrow> (error + datetime) \<times> serial" where
  "get_datetime c =
     (case send_command (ascii ''GETDATETIME'') None None c of
        (Inl e, c') \<Rightarrow> (Inl e, c')
      | (Inr (PyBytes response), c') \<Rightarrow> (parse_datetime response, c')
      | (Inr other, c') \<Rightarrow> (Inl UnpackValueError, c'))"

text \<open>
  \<open>set_datetime\<close>: the six calls of \<open>hex_byte\<close> are evaluated from left to right while
  the command is put together, before anything is sent; the first that raises ends the
  call.
\<close>

definition set_datetime :: "datetime \<Rightarrow> serial \<Rightarrow> (error + pyval) \<times> serial" where
  "set_datetime dt c =
     (case hex_byte (year dt - 2000) of Inl e \<Rightarrow> (Inl e, c) | Inr yy \<Rightarrow>
      case hex_byte (month dt) of Inl e \<Rightarrow> (Inl e, c) | Inr mm \<Rightarrow>
      case hex_byte (day dt) of Inl e \<Rightarrow> (Inl e, c) | Inr dd \<Rightarrow>
      case hex_byte (hour dt) of Inl e \<Rightarrow> (Inl e, c) | Inr hh \<Rightarrow>
      case hex_byte (minute dt) of Inl e \<Rightarrow> (Inl e, c) | Inr mi \<Rightarrow>
      case hex_byte (second dt) of Inl e \<Rightarrow> (Inl e, c) | Inr ss \<Rightarrow>
        send_command (ascii ''SETDATETIME'' @ yy @ mm @ dd @ hh @ mi @ ss) None (Some OK) c)"

text \<open>
  \<open>set_date_yy(year)\<close>: \<open>send_command(b'SETDATEYY' + hex_byte(year), '!B', OK)\<close>; the
  argument is the year counted from 2000.
\<close>

definition set_date_yy :: "int \<Rightarrow> serial \<Rightarrow> (error + pyval) \<times> serial" where
  "set_date_yy yy c =
     (case hex_byte yy of
        Inl e \<Rightarrow> (Inl e, c)
      | Inr b \<Rightarrow> send_command (ascii ''SETDATEYY'' @ b) (Some [Fmt_B]) (Some OK) c)"

definition set_date_mm :: "int \<Rightarrow> serial \<Rightarrow> (error + pyval) \<times> serial" where
  "set_date_mm mm c =
     (case hex_byte mm of
        Inl e \<Rightarrow> (Inl e, c)
      | Inr b \<Rightarrow> send_command (ascii ''SETDATEMM'' @ b) (Some [Fmt_B]) (Some OK) c)"

definition set_date_dd :: "int \<Rightarrow> serial \<Rightarrow> (error + pyval) \<times> serial" where
  "set_date_dd dd c =
     (case hex_byte dd of
        Inl e \<Rightarrow> (Inl e, c)
      | Inr b \<Rightarrow> send_command (ascii ''SETDATEDD'' @ b) (Some [Fmt_B]) (Some OK) c)"

text \<open>\<open>set_date(date)\<close>: year, then month, then day; it takes a date, here a \<open>datetime\<close>.\<close>

definition set_date :: "datetime \<Rightarrow> serial \<Rightarrow> (error + unit) \<times> serial" where
  "set_date date c =
     (case set_date_yy (year date - 2000) c of (Inl e, c1) \<Rightarrow> (Inl e, c1) | (Inr r1, c1) \<Rightarrow>
      case set_date_mm (month date) c1 of (Inl e, c2) \<Rightarrow> (Inl e, c2) | (Inr r2, c2) \<Rightarrow>
      case set_date_dd (day date) c2 of (Inl e, c3) \<Rightarrow> (Inl e, c3) | (Inr r3, c3) \<Rightarrow>
        (Inr (), c3))"

subsection \<open>The text commands and \<open>get_wifi_status\<close>\<close>

text \<open>\<open>text.split('\r\n')\<close>\<close>

fun split_crlf :: "str \<Rightarrow> str \<Rightarrow> str list" where
  "split_crlf [] cur = [cur]"
| "split_crlf [ch] cur = [cur @ [ch]]"
| "split_crlf (ch # ch' # text) cur =
     (if ch = 13 \<and> ch' = 10 then cur # split_crlf text []
      else split_crlf (ch' # text) (cur @ [ch]))"

text \<open>
  \<open>at_command(command, wait)\<close>: one write, then, after \<open>wait\<close> seconds, everything the
  device has sent, decoded as ASCII and split into lines.
\<close>

definition at_command :: "str \<Rightarrow> serial \<Rightarrow> (error + str list) \<times> serial" where
  "at_command command c =
     (case encode_ascii command of
        Inl e \<Rightarrow> (Inl e, c)
      | Inr cmd \<Rightarrow>
          (case read_all (write_conn (ascii ''<AT+'' @ cmd @ ascii ''>>'') c) of
             (response, c') \<Rightarrow>
               (case decode_ascii response of
                  Inl e \<Rightarrow> (Inl e, c')
                | Inr text \<Rightarrow> (Inr (split_crlf text []), c'))))"

definition AP_STATUS_FIELDS :: "string list" where
  "AP_STATUS_FIELDS =
     [''ssid'', ''bssid'', ''channel'', ''rssi'', ''pci_en'', ''reconn_interval'',
      ''listen_interval'', ''scan_mode'', ''pmf'']"

text \<open>
  \<open>csv.reader\<close> of the standard library, with the dialect \<open>excel\<close> that
  \<open>csv.DictReader(f, fieldnames)\<close> uses: delimiter \<open>,\<close> (44), quote character \<open>"\<close> (34),
  doubled quotes, no escape character, not strict. The reader takes its input from an
  iterator, one item at a time as a line, and feeds the line's characters and then an
  end-of-line mark (\<open>None\<close> here) to the state machine \<open>parse_process_char\<close>.
\<close>

datatype parser_state =
    START_RECORD | START_FIELD | IN_FIELD | IN_QUOTED_FIELD | QUOTE_IN_QUOTED_FIELD | EAT_CRNL

record reader =
  state :: parser_state
  saved :: "str list"     \<comment> \<open>\<open>self->fields\<close>: the fields of the record read so far\<close>
  field :: str            \<comment> \<open>\<open>self->field\<close>: the characters of the field being read\<close>

definition parse_save_field :: "reader \<Rightarrow> reader" where
  "parse_save_field r = r\<lparr>saved := saved r @ [field r], field := []\<rparr>"

definition parse_add_char :: "reader \<Rightarrow> nat \<Rightarrow> reader" where
  "parse_add_char r ch = r\<lparr>field := field r @ [ch]\<rparr>"

definition start_field :: "reader \<Rightarrow> nat option \<Rightarrow> reader" where
  "start_field r c =
     (case c of
        None \<Rightarrow> (parse_save_field r)\<lparr>state := START_RECORD\<rparr>
      | Some ch \<Rightarrow>
          if ch = 10 \<or> ch = 13 then (parse_save_field r)\<lparr>state := EAT_CRNL\<rparr>
          else if ch = 34 then r\<lparr>state := IN_QUOTED_FIELD\<rparr>
          else if ch = 44 then parse_save_field r
          else (parse_add_char r ch)\<lparr>state := IN_FIELD\<rparr>)"

definition parse_process_char :: "reader \<Rightarrow> nat option \<Rightarrow> error + reader" where
  "parse_process_char r c =
     (case state r of
        START_RECORD \<Rightarrow>
          (case c of
             None \<Rightarrow> Inr r
           | Some ch \<Rightarrow>
               if ch = 10 \<or> ch = 13 then Inr (r\<lparr>state := EAT_CRNL\<rparr>)
               else Inr (start_field (r\<lparr>state := START_FIELD\<rparr>) c))
      | START_FIELD \<Rightarrow> Inr (start_field r c)
      | IN_FIELD \<Rightarrow>
          (case c of
             None \<Rightarrow> Inr ((parse_save_field r)\<lparr>state := START_RECORD\<rparr>)
           | Some ch \<Rightarrow>
               if ch = 10 \<or> ch = 13 then Inr ((parse_save_field r)\<lparr>state := EAT_CRNL\<rparr>)
               else if ch = 44 then Inr ((parse_save_field r)\<lparr>state := START_FIELD\<rparr>)
               else Inr (parse_add_char r ch))
      | IN_QUOTED_FIELD \<Rightarrow>
          (case c of
             None \<Rightarrow> Inr r
           | Some ch \<Rightarrow>
               if ch = 34 then Inr (r\<lparr>state := QUOTE_IN_QUOTED_FIELD\<rparr>)
               else Inr (parse_add_char r ch))
      | QUOTE_IN_QUOTED_FIELD \<Rightarrow>
          (case c of
             None \<Rightarrow> Inr ((parse_save_field r)\<lparr>state := START_RECORD\<rparr>)
           | Some ch \<Rightarrow>
               if ch = 34 then Inr ((parse_add_char r ch)\<lparr>state := IN_QUOTED_FIELD\<rparr>)
               else if ch = 44 then Inr ((parse_save_field r)\<lparr>state := START_FIELD\<rparr>)
               else if ch = 10 \<or> ch = 13 then Inr ((parse_save_field r)\<lparr>state := EAT_CRNL\<rparr>)
               else Inr ((parse_add_char r ch)\<lparr>state := IN_FIELD\<rparr>))
      | EAT_CRNL \<Rightarrow>
          (case c of
             None \<Rightarrow> Inr (r\<lparr>state := START_RECORD\<rparr>)
           | Some ch \<Rightarrow> if ch = 10 \<or> ch = 13 then Inr r else Inl CsvError))"

fun process_line :: "str \<Rightarrow> reader \<Rightarrow> error + reader" where
  "process_line [] r = Inr r"
| "process_line (ch # line) r =
     (case parse_process_char r (Some ch) of Inl e \<Rightarrow> Inl e | Inr r' \<Rightarrow> process_line line r')"

text \<open>
  \<open>Reader.__next__\<close>: lines are taken until the state machine is back at
  \<open>START_RECORD\<close>; the result is the row and the lines not yet read. When the input ends
  inside a record, the record read so far is returned; when it ends between records,
  \<open>StopIteration\<close> is raised.
\<close>

fun reader_loop :: "str list \<Rightarrow> reader \<Rightarrow> error + (str list \<times> str list)" where
  "reader_loop [] r =
     (if field r \<noteq> [] \<or> state r = IN_QUOTED_FIELD
      then Inr (saved (parse_save_field r), []) else Inl StopIteration)"
| "reader_loop (line # later) r =
     (case process_line line r of
        Inl e \<Rightarrow> Inl e
      | Inr r' \<Rightarrow>
          (case parse_process_char r' None of
             Inl e \<Rightarrow> Inl e
           | Inr r'' \<Rightarrow>
               if state r'' \<noteq> START_RECORD then reader_loop later r''
               else Inr (saved r'', later)))"

definition reader_next :: "str list \<Rightarrow> error + (str list \<times> str list)" where
  "reader_next lines = reader_loop lines \<lparr>state = START_RECORD, saved = [], field = []\<rparr>"

text \<open>
  \<open>csv.DictReader.__next__\<close> with the field names given: empty rows are skipped; the row
  is zipped with the field names; a short row leaves the remaining names at \<open>None\<close>
  (\<open>restval\<close>), a long one puts the remaining values under the key \<open>None\<close> (\<open>restkey\<close>).
\<close>

datatype cell = Text str | Rest "str list" | Missing

type_synonym csv_dict = "(string option \<times> cell) list"

definition dict_of_row :: "string list \<Rightarrow> str list \<Rightarrow> csv_dict" where
  "dict_of_row fieldnames row =
     map (\<lambda>(k, v). (Some k, Text v)) (zip fieldnames row) @
     (if length fieldnames < length row then [(None, Rest (drop (length fieldnames) row))]
      else map (\<lambda>k. (Some k, Missing)) (drop (length row) fieldnames))"

function dictreader_next :: "str list \<Rightarrow> string list \<Rightarrow> error + (csv_dict \<times> str list)" where
  "dictreader_next lines fieldnames =
     (case reader_next lines of
        Inl e \<Rightarrow> Inl e
      | Inr (row, later) \<Rightarrow>
          if row = [] then dictreader_next later fieldnames
          else Inr (dict_of_row fieldnames row, later))"
  by pat_completeness auto
termination
proof (relation "measure (\<lambda>(lines, fieldnames). length lines)")
  show "wf (measure (\<lambda>(lines, fieldnames). length lines))" by simp
next
  fix lines :: "str list" and fieldnames :: "string list" and x row later
  assume n: "reader_next lines = Inr x" and x: "(row, later) = x" and e: "row = []"
  have shorter: "length rest < length ls"
    if "reader_loop ls r = Inr ([], rest)" for ls r rest
    using that
  proof (induction ls arbitrary: r)
    case Nil
    then show ?case by (simp add: parse_save_field_def split: if_splits)
  next
    case (Cons l ls)
    then show ?case by (fastforce split: sum.splits if_splits)
  qed
  have "reader_loop lines \<lparr>state = START_RECORD, saved = [], field = []\<rparr> = Inr ([], later)"
    using n x e by (simp add: reader_next_def)
  then have "length later < length lines" by (rule shorter)
  then show "((later, fieldnames), (lines, fieldnames)) \<in> measure (\<lambda>(lines, fieldnames). length lines)"
    by simp
qed

declare dictreader_next.simps [simp del]

text \<open>
  \<open>get_wifi_status\<close>: \<open>response[1][7:]\<close> is a \<open>str\<close>, and the \<open>DictReader\<close> iterates over
  what it is given: iterating over a \<open>str\<close> yields its characters, each a string of
  length one, so each character is read as a line of its own.
\<close>

definition get_wifi_status :: "serial \<Rightarrow> (error + csv_dict) \<times> serial" where
  "get_wifi_status c =
     (case at_command (str_of ''CWJAP?'') c of
        (Inl e, c') \<Rightarrow> (Inl e, c')
      | (Inr response, c') \<Rightarrow>
          if length response \<le> 1 then (Inl IndexError, c')
          else
            (case dictreader_next (map (\<lambda>ch. [ch]) (drop 7 (response ! 1))) AP_STATUS_FIELDS of
               Inl e \<Rightarrow> (Inl e, c')
             | Inr (row_dict, later) \<Rightarrow> (Inr row_dict, c')))"

subsection \<open>Concrete records\<close>

text \<open>
  A record of 512 bytes as the device sends it: numeric fields, the SSID \<open>Net1\<close>, the
  password \<open>secret\<close>, four empty text fields, and the reserved 128 bytes holding \<open>0xFF\<close>.
\<close>

definition example_record :: bytes where
  "example_record =
     replicate 69 7 @ ascii ''Net1'' @ replicate 60 0 @ ascii ''secret'' @ replicate 58 0
       @ replicate 128 0 @ replicate 59 3 @ replicate 128 0xFF"

text \<open>A buffer of 256 bytes.\<close>

definition short_record :: bytes where
  "short_record = replicate 256 0"

text \<open>A buffer of 512 null bytes: its reserved region does not hold the fill byte.\<close>

definition zero_record :: bytes where
  "zero_record = replicate 512 0"

text \<open>The value the example record parses to.\<close>

definition example_config :: container where
  "example_config =
     (case parse config_format example_record of Inr config \<Rightarrow> config | Inl e \<Rightarrow> Map.empty)"

subsection \<open>Vocabulary of the statements\<close>

text \<open>
  The framed command that writes one byte of the configuration: \<open><WCFG\<close>, the address as
  two bytes, high byte first, the value, \<open>>>\<close>.
\<close>

definition write_command :: "nat \<Rightarrow> byte \<Rightarrow> bytes" where
  "write_command address b =
     ascii ''<WCFG'' @ [word_of_nat (address div 256), word_of_nat (address mod 256)] @ [b]
       @ ascii ''>>''"

text \<open>
  What the serial port delivers when the device acknowledges \<open>n\<close> commands in a row: for
  each, the byte \<open>0xAA\<close> and then a read that times out.
\<close>

definition acks :: "nat \<Rightarrow> bytes list" where
  "acks n = concat (replicate n [[0xAA], []])"

text \<open>
  The six raw bytes of a date and time: the year counted from 2000, month, day, hour,
  minute, second, each as the byte of that value.
\<close>

definition datetime_bytes :: "datetime \<Rightarrow> bytes" where
  "datetime_bytes dt =
     [word_of_int (year dt - 2000), word_of_int (month dt), word_of_int (day dt),
      word_of_int (hour dt), word_of_int (minute dt), word_of_int (second dt)]"

text \<open>
  The last day of 1999, and a serial port to which nothing has been written yet and which
  will answer the next command with \<open>0xAA\<close>.
\<close>

definition y1999 :: datetime where
  "y1999 = \<lparr>year = 1999, month = 12, day = 31, hour = 23, minute = 59, second = 59\<rparr>"

definition fresh :: serial where
  "fresh = \<lparr>written = [], incoming = [[0xAA], []]\<rparr>"

text \<open>
  An answer of the device to \<open>AT+CWJAP?\<close>: the echo of the command, the status line, an
  empty line and \<open>OK\<close>, the lines ending in CR LF; and the serial port that delivers it one
  byte per read.
\<close>

definition status_line :: string where
  \<open>status_line = ''+CWJAP:"Net1","aa:bb:cc:dd:ee:ff",6,-45,0,0,0,0,0''\<close>

definition status_answer :: bytes where
  "status_answer =
     ascii ''AT+CWJAP?'' @ [13, 10] @ ascii status_line @ [13, 10, 13, 10] @ ascii ''OK'' @ [13, 10]"

definition status_port :: serial where
  "status_port = \<lparr>written = [], incoming = map (\<lambda>b. [b]) status_answer\<rparr>"

section \<open>Properties\<close>

subsection \<open>Auxiliary facts about the codec\<close>

lemma walk_add: "walk st c = c + sum_list (map (\<lambda>(n, sc). sizeof sc) st)"
  by (induction st c rule: walk.induct) auto

lemma walk_config: "walk config_format 0 = 512"
  by (simp add: config_format_def)

lemma from_bytes_be_snoc: "from_bytes_be (bs @ [b]) = from_bytes_be bs * 256 + uint b"
  by (simp add: from_bytes_be_def)

lemma from_bytes_be_range: "0 \<le> from_bytes_be bs \<and> from_bytes_be bs < 256 ^ length bs"
proof (induction bs rule: rev_induct)
  case Nil
  show ?case by (simp add: from_bytes_be_def)
next
  case (snoc b bs)
  have "uint b < 256" using uint_bounded [of b] by simp
  moreover have "0 \<le> uint b" by simp
  ultimately show ?case using snoc by (simp add: from_bytes_be_snoc)
qed

lemma to_bytes_be_from_bytes_be: "to_bytes_be (length bs) (from_bytes_be bs) = bs"
proof (induction bs rule: rev_induct)
  case Nil
  show ?case by simp
next
  case (snoc b bs)
  have b: "0 \<le> uint b" "uint b < 256" using uint_bounded [of b] by simp_all
  have d: "(from_bytes_be bs * 256 + uint b) div 256 = from_bytes_be bs"
    using b by simp
  have m: "(from_bytes_be bs * 256 + uint b) mod 256 = uint b"
    using b by simp
  have "to_bytes_be (length (bs @ [b])) (from_bytes_be (bs @ [b]))
        = to_bytes_be (length bs) ((from_bytes_be bs * 256 + uint b) div 256)
          @ [word_of_int ((from_bytes_be bs * 256 + uint b) mod 256)]"
    by (simp only: from_bytes_be_snoc length_append_singleton to_bytes_be.simps)
  also have "\<dots> = to_bytes_be (length bs) (from_bytes_be bs) @ [word_of_int (uint b)]"
    by (simp only: d m)
  also have "\<dots> = bs @ [b]"
    using snoc by simp
  finally show ?case .
qed

lemma length_to_bytes_be: "length (to_bytes_be n v) = n"
  by (induction n v rule: to_bytes_be.induct) auto

lemma rstrip_null_pad: "rstrip_null bs @ replicate (length bs - length (rstrip_null bs)) 0 = bs"
proof -
  let ?P = "\<lambda>b::byte. b = 0"
  have 1: "rev bs = takeWhile ?P (rev bs) @ dropWhile ?P (rev bs)" by simp
  have 2: "takeWhile ?P (rev bs) = replicate (length (takeWhile ?P (rev bs))) 0"
    by (metis (mono_tags, lifting) replicate_eqI set_takeWhileD)
  have "bs = rev (dropWhile ?P (rev bs)) @ rev (takeWhile ?P (rev bs))"
    by (metis 1 rev_append rev_rev_ident)
  moreover have "rev (takeWhile ?P (rev bs)) = replicate (length (takeWhile ?P (rev bs))) 0"
    using 2 by (metis rev_replicate)
  moreover have "length (takeWhile ?P (rev bs)) = length bs - length (rstrip_null bs)"
    unfolding rstrip_null_def
    by (metis 1 add_diff_cancel_right' length_append length_rev)
  ultimately show ?thesis unfolding rstrip_null_def by metis
qed

lemma length_rstrip_null: "length (rstrip_null bs) \<le> length bs"
  unfolding rstrip_null_def by (simp add: length_dropWhile_le order_trans [OF length_dropWhile_le])

lemma encode_decode_ascii: "decode_ascii bs = Inr s \<Longrightarrow> encode_ascii s = Inr bs"
proof -
  assume a: "decode_ascii bs = Inr s"
  then have ok: "list_all (\<lambda>b. b < 0x80) bs" and s: "s = map unat bs"
    by (auto simp: decode_ascii_def split: if_splits)
  have "list_all (\<lambda>c. c < 128) s"
    using ok unfolding s list_all_iff by (auto simp: word_less_nat_alt)
  moreover have "map word_of_nat s = bs" unfolding s by (simp add: map_idI)
  ultimately show ?thesis by (simp add: encode_ascii_def)
qed


lemma parse_con_build_con:
  assumes "parse_con c s = Inr (v, rest)"
  shows "sizeof c \<le> length s" and "rest = drop (sizeof c) s"
    and "\<not> flagbuildnone c \<Longrightarrow> build_con c v = Inr (take (sizeof c) s)"
proof -
  show le: "sizeof c \<le> length s"
    using assms by (auto simp: parse_con_def split: if_splits)
  show "rest = drop (sizeof c) s"
    using assms
    by (cases c) (auto simp: parse_con_def Let_def split: if_splits sum.splits)
  assume np: "\<not> flagbuildnone c"
  let ?d = "take (sizeof c) s"
  have len: "length ?d = sizeof c" using le by simp
  have int_case: "build_int e (sizeof c) (PyInt (from_bytes_be ?d)) = Inr ?d" for e
    using from_bytes_be_range [of ?d] to_bytes_be_from_bytes_be [of ?d]
    by (simp add: build_int_def len min_absorb2 [OF le])
  show "build_con c v = Inr ?d"
  proof (cases c)
    case Int8ub
    then have "v = PyInt (from_bytes_be ?d)"
      using assms le by (auto simp: parse_con_def Let_def split: if_splits)
    then show ?thesis using int_case [of FormatFieldError] Int8ub by (simp add: build_con_def)
  next
    case Int16ub
    then have "v = PyInt (from_bytes_be ?d)"
      using assms le by (auto simp: parse_con_def Let_def split: if_splits)
    then show ?thesis using int_case [of FormatFieldError] Int16ub by (simp add: build_con_def)
  next
    case Int24ub
    then have "v = PyInt (from_bytes_be ?d)"
      using assms le by (auto simp: parse_con_def Let_def split: if_splits)
    then show ?thesis using int_case [of IntegerError] Int24ub by (simp add: build_con_def)
  next
    case Int32ub
    then have "v = PyInt (from_bytes_be ?d)"
      using assms le by (auto simp: parse_con_def Let_def split: if_splits)
    then show ?thesis using int_case [of FormatFieldError] Int32ub by (simp add: build_con_def)
  next
    case (PaddedString n)
    then obtain t where t: "decode_ascii (rstrip_null ?d) = Inr t" and v: "v = PyStr t"
      using assms le by (auto simp: parse_con_def Let_def split: if_splits sum.splits)
    have n: "length ?d = n" using len PaddedString by simp
    have "encode_ascii t = Inr (rstrip_null ?d)" using t by (rule encode_decode_ascii)
    moreover have "length (rstrip_null ?d) \<le> n" by (metis length_rstrip_null n)
    moreover have "rstrip_null ?d @ replicate (n - length (rstrip_null ?d)) 0 = ?d"
      using rstrip_null_pad [of ?d] n by simp
    ultimately show ?thesis using PaddedString v by (simp add: build_con_def)
  next
    case (Bytes n)
    then have "v = PyBytes ?d"
      using assms le by (auto simp: parse_con_def Let_def split: if_splits)
    then show ?thesis using Bytes len by (simp add: build_con_def)
  next
    case (Padding n p)
    then show ?thesis using np by simp
  qed
qed

lemma struct_parse_other:
  "struct_parse st s obj0 = Inr (obj, rest) \<Longrightarrow> name \<notin> fst ` set st \<Longrightarrow> obj name = obj0 name"
proof (induction st arbitrary: s obj0)
  case Nil
  then show ?case by simp
next
  case (Cons f st)
  obtain nm sc where f: "f = (nm, sc)" by (cases f)
  from Cons.prems(1) obtain v r where
    p: "parse_con sc s = Inr (v, r)" and
    q: "struct_parse st r (obj0(nm \<mapsto> v)) = Inr (obj, rest)"
    unfolding f by (auto split: sum.splits)
  have "name \<notin> fst ` set st" and ne: "name \<noteq> nm" using Cons.prems(2) f by auto
  then have "obj name = (obj0(nm \<mapsto> v)) name" using Cons.IH [OF q] by blast
  then show ?case using ne by simp
qed

lemma struct_build_cong:
  "(\<And>name. name \<in> fst ` set st \<Longrightarrow> obj name = obj' name) \<Longrightarrow>
   struct_build st obj acc = struct_build st obj' acc"
proof (induction st arbitrary: acc)
  case Nil
  show ?case by simp
next
  case (Cons f st)
  obtain nm sc where f: "f = (nm, sc)" by (cases f)
  have eq: "obj nm = obj' nm" using Cons.prems f by simp
  have rec: "struct_build st obj acc' = struct_build st obj' acc'" for acc'
    using Cons.IH Cons.prems by simp
  show ?case unfolding f by (simp add: eq rec cong: sum.case_cong)
qed

lemma walk_shift: "walk st c = c + walk st 0"
  by (simp add: walk_add)

lemma struct_roundtrip:
  assumes "distinct (map fst st)" and "list_all (\<lambda>f. \<not> flagbuildnone (snd f)) st"
    and "struct_parse st s obj0 = Inr (obj, rest)"
  shows "walk st 0 \<le> length s \<and> rest = drop (walk st 0) s \<and>
         struct_build st obj acc = Inr (acc @ take (walk st 0) s)"
  using assms
proof (induction st arbitrary: s obj0 acc)
  case Nil
  then show ?case by simp
next
  case (Cons f st)
  obtain nm sc where f: "f = (nm, sc)" by (cases f)
  from Cons.prems(3) obtain v r where
    p: "parse_con sc s = Inr (v, r)" and
    q: "struct_parse st r (obj0(nm \<mapsto> v)) = Inr (obj, rest)"
    unfolding f by (auto split: sum.splits)
  have np: "\<not> flagbuildnone sc" using Cons.prems(2) f by simp
  note fld = parse_con_build_con [OF p]
  have r: "r = drop (sizeof sc) s" by (rule fld(2))
  have b: "build_con sc v = Inr (take (sizeof sc) s)" using np by (rule fld(3))
  have d: "distinct (map fst st)" and nin: "nm \<notin> fst ` set st"
    using Cons.prems(1) f by auto
  have l: "list_all (\<lambda>f. \<not> flagbuildnone (snd f)) st" using Cons.prems(2) by simp
  have look: "obj nm = Some v" using struct_parse_other [OF q nin] by simp
  note ih = Cons.IH [OF d l q, of "acc @ take (sizeof sc) s"]
  have w: "walk (f # st) 0 = sizeof sc + walk st 0"
    unfolding f using walk_shift [of st "sizeof sc"] by simp
  have 1: "walk (f # st) 0 \<le> length s" using ih fld(1) unfolding w r by auto
  have 2: "rest = drop (walk (f # st) 0) s" using ih unfolding w r by (simp add: add.commute)
  have "struct_build (f # st) obj acc = struct_build st obj (acc @ take (sizeof sc) s)"
    unfolding f using np look b by simp
  also have "\<dots> = Inr ((acc @ take (sizeof sc) s) @ take (walk st 0) r)" using ih by simp
  also have "\<dots> = Inr (acc @ take (walk (f # st) 0) s)"
    unfolding w r by (simp add: take_add)
  finally show ?case using 1 2 by simp
qed

lemma distinct_config: "distinct (map fst config_format)"
  by (simp add: config_format_def)


lemma struct_parse_consumes:
  "struct_parse st s obj0 = Inr (obj, rest) \<Longrightarrow> walk st 0 \<le> length s \<and> rest = drop (walk st 0) s"
proof (induction st arbitrary: s obj0)
  case Nil
  then show ?case by simp
next
  case (Cons f st)
  obtain nm sc where f: "f = (nm, sc)" by (cases f)
  from Cons.prems obtain v r where
    p: "parse_con sc s = Inr (v, r)" and
    q: "struct_parse st r (obj0(nm \<mapsto> v)) = Inr (obj, rest)"
    unfolding f by (auto split: sum.splits)
  note fld = parse_con_build_con(1,2) [OF p]
  note ih = Cons.IH [OF q]
  have w: "walk (f # st) 0 = sizeof sc + walk st 0"
    unfolding f using walk_shift [of st "sizeof sc"] by simp
  show ?case using ih fld unfolding w by (auto simp: add.commute)
qed

lemma build_con_length: "build_con c v = Inr d \<Longrightarrow> length d = sizeof c"
  by (cases c; cases v)
     (auto simp: build_con_def build_int_def length_to_bytes_be split: if_splits sum.splits)

lemma struct_build_length:
  "struct_build st obj acc = Inr d \<Longrightarrow> length d = length acc + walk st 0"
proof (induction st arbitrary: acc)
  case Nil
  then show ?case by simp
next
  case (Cons f st)
  obtain nm sc where f: "f = (nm, sc)" by (cases f)
  from Cons.prems obtain v data where
    b: "build_con sc v = Inr data" and
    q: "struct_build st obj (acc @ data) = Inr d"
    unfolding f by (auto split: sum.splits if_splits option.splits)
  have w: "walk (f # st) 0 = sizeof sc + walk st 0"
    unfolding f using walk_shift [of st "sizeof sc"] by simp
  show ?case using Cons.IH [OF q] build_con_length [OF b] unfolding w by simp
qed

lemma decode_ascii_rstrip_null:
  "list_all (\<lambda>b. b < 0x80) d \<Longrightarrow> \<exists>t. decode_ascii (rstrip_null d) = Inr t"
proof -
  assume a: "list_all (\<lambda>b. b < 0x80) d"
  have "set (rstrip_null d) \<subseteq> set d"
    unfolding rstrip_null_def using set_dropWhileD by fastforce
  then have "list_all (\<lambda>b. b < 0x80) (rstrip_null d)"
    using a unfolding list_all_iff by blast
  then show ?thesis by (simp add: decode_ascii_def)
qed

lemma decodable_parse_con:
  assumes "sizeof sc \<le> length s"
    and "case sc of PaddedString n \<Rightarrow> list_all (\<lambda>b. b < 0x80) (take n s) | _ \<Rightarrow> True"
  shows "\<exists>v. parse_con sc s = Inr (v, drop (sizeof sc) s)"
proof (cases sc)
  case (PaddedString n)
  then obtain t where "decode_ascii (rstrip_null (take n s)) = Inr t"
    using assms(2) decode_ascii_rstrip_null by fastforce
  then show ?thesis using assms(1) PaddedString by (simp add: parse_con_def)
qed (use assms(1) in \<open>auto simp: parse_con_def\<close>)

lemma decodable_struct_parse:
  "decodable st s \<Longrightarrow> \<exists>obj. struct_parse st s obj0 = Inr (obj, drop (walk st 0) s)"
proof (induction st arbitrary: s obj0)
  case Nil
  then show ?case by simp
next
  case (Cons f st)
  obtain nm sc where f: "f = (nm, sc)" by (cases f)
  from Cons.prems have 1: "sizeof sc \<le> length s"
    and 2: "case sc of PaddedString n \<Rightarrow> list_all (\<lambda>b. b < 0x80) (take n s) | _ \<Rightarrow> True"
    and 3: "decodable st (drop (sizeof sc) s)"
    unfolding f by simp_all
  obtain v where p: "parse_con sc s = Inr (v, drop (sizeof sc) s)"
    using decodable_parse_con [OF 1 2] by blast
  obtain obj where q: "struct_parse st (drop (sizeof sc) s) (obj0(nm \<mapsto> v))
      = Inr (obj, drop (walk st 0) (drop (sizeof sc) s))"
    using Cons.IH [OF 3] by blast
  have w: "walk (f # st) 0 = sizeof sc + walk st 0"
    unfolding f using walk_shift [of st "sizeof sc"] by simp
  show ?case unfolding f w [unfolded f] using p q by (simp add: add.commute)
qed


lemma dec_example_record: "decodable config_format example_record"
  by (simp add: config_format_def example_record_def ascii_def list_all_iff)


lemma struct_parse_append:
  "struct_parse (st @ st') s obj0 =
     (case struct_parse st s obj0 of Inl e \<Rightarrow> Inl e | Inr (obj, rest) \<Rightarrow> struct_parse st' rest obj)"
proof (induction st arbitrary: s obj0)
  case Nil
  show ?case by simp
next
  case (Cons f st)
  obtain nm sc where f: "f = (nm, sc)" by (cases f)
  show ?case
  proof (cases "parse_con sc s")
    case (Inl e)
    then show ?thesis unfolding f by simp
  next
    case (Inr vr)
    obtain v r where "vr = (v, r)" by (cases vr)
    then show ?thesis unfolding f using Inr
      by (simp only: append_Cons struct_parse.simps sum.case prod.case Cons.IH)
  qed
qed

lemma struct_build_append:
  "struct_build (st @ st') obj acc =
     (case struct_build st obj acc of Inl e \<Rightarrow> Inl e | Inr acc' \<Rightarrow> struct_build st' obj acc')"
proof (induction st arbitrary: acc)
  case Nil
  show ?case by simp
next
  case (Cons f st)
  obtain nm sc where f: "f = (nm, sc)" by (cases f)
  show ?case unfolding f by (simp add: Cons.IH split: sum.splits option.splits)
qed

lemma config_format_split:
  "config_format = butlast config_format @ [(''unused'', Padding 128 0xFF)]"
  by (simp add: config_format_def)

lemma config_body:
  "distinct (map fst (butlast config_format))"
  "list_all (\<lambda>f. \<not> flagbuildnone (snd f)) (butlast config_format)"
  "walk (butlast config_format) 0 = 384"
  "''unused'' \<notin> fst ` set (butlast config_format)"
  by (simp_all add: config_format_def)

lemma config_rebuild:
  assumes "parse config_format b = Inr config"
  shows "build config_format config = Inr (take 384 b @ replicate 128 0xFF)"
proof -
  let ?body = "butlast config_format"
  from assms obtain rest where
    p: "struct_parse (?body @ [(''unused'', Padding 128 0xFF)]) b Map.empty = Inr (config, rest)"
    unfolding parse_def using config_format_split by (auto split: sum.splits)
  then obtain obj1 rest1 where
    p1: "struct_parse ?body b Map.empty = Inr (obj1, rest1)" and
    p2: "struct_parse [(''unused'', Padding 128 0xFF)] rest1 obj1 = Inr (config, rest)"
    unfolding struct_parse_append by (auto split: sum.splits)
  have cfg: "config = obj1(''unused'' \<mapsto> PyNone)"
    using p2 by (auto simp: parse_con_def split: if_splits sum.splits)
  have "struct_build ?body obj1 [] = Inr ([] @ take (walk ?body 0) b)"
    using struct_roundtrip [OF config_body(1) config_body(2) p1] by blast
  then have b1: "struct_build ?body obj1 [] = Inr (take 384 b)"
    by (simp add: config_body(3))
  have "struct_build ?body config [] = struct_build ?body obj1 []"
  proof (rule struct_build_cong)
    fix name assume "name \<in> fst ` set ?body"
    then have "name \<noteq> ''unused''" using config_body(4) by blast
    then show "config name = obj1 name" unfolding cfg by simp
  qed
  then have b2: "struct_build ?body config [] = Inr (take 384 b)" using b1 by simp
  have "build config_format config
      = struct_build (?body @ [(''unused'', Padding 128 0xFF)]) config []"
    unfolding build_def using config_format_split by simp
  also have "\<dots> = Inr (take 384 b @ replicate 128 0xFF)"
    unfolding struct_build_append b2 by (simp add: build_con_def)
  finally show ?thesis .
qed


lemma parse_example_record:
  "\<exists>config. struct_parse config_format example_record Map.empty = Inr (config, [])"
proof -
  have "drop (walk config_format 0) example_record = []"
    by (simp add: walk_config example_record_def ascii_def)
  then show ?thesis
    using decodable_struct_parse [OF dec_example_record, of Map.empty] by simp
qed

lemma parse_short: "length data < 512 \<Longrightarrow> \<exists>e. parse config_format data = Inl e"
proof (cases "struct_parse config_format data Map.empty")
  case (Inl e)
  then show ?thesis by (simp add: parse_def)
next
  case (Inr r)
  assume l: "length data < 512"
  obtain obj rest where "r = (obj, rest)" by (cases r)
  then have "walk config_format 0 \<le> length data"
    using struct_parse_consumes Inr by blast
  then show ?thesis using l by (simp add: walk_config)
qed

subsection \<open>C1: decoding and re-encoding a configuration record\<close>

text \<open>
  C1 (as amended). A buffer that \<open>config_format.parse\<close> accepts has at least 512 bytes, and
  building the parsed value gives the first 384 bytes of the buffer unchanged, null-padded
  text fields included, followed by 128 bytes \<open>0xFF\<close>: the reserved region is written
  with its fill byte, whatever the buffer held there. So \<open>build(parse(b)) = b\<close> holds
  exactly when \<open>b\<close> has 512 bytes of which the last 128 are \<open>0xFF\<close>.
\<close>

theorem config_roundtrip:
  assumes "parse config_format b = Inr config"
  shows "512 \<le> length b \<and>
         build config_format config = Inr (take 384 b @ replicate 128 0xFF) \<and>
         (build config_format config = Inr b) = (drop 384 b = replicate 128 0xFF)"
proof -
  have l: "512 \<le> length b"
  proof (rule ccontr)
    assume "\<not> 512 \<le> length b"
    then have "length b < 512" by simp
    then show False using parse_short assms by fastforce
  qed
  have r: "build config_format config = Inr (take 384 b @ replicate 128 0xFF)"
    using assms by (rule config_rebuild)
  have "(take 384 b @ replicate 128 0xFF = b) = (drop 384 b = replicate 128 0xFF)"
    by (metis append_take_drop_id same_append_eq)
  then show ?thesis using l r by simp
qed

text \<open>The round trip on a concrete record of 512 bytes.\<close>

theorem config_roundtrip_witness:
  "length example_record = 512 \<and>
   (\<exists>config. parse config_format example_record = Inr config \<and>
      build config_format config = Inr example_record)"
proof -
  have l: "length example_record = 512" by (simp add: example_record_def ascii_def)
  obtain config where p: "parse config_format example_record = Inr config"
    using parse_example_record by (auto simp: parse_def)
  have d: "drop 384 example_record = replicate 128 0xFF"
    by (simp add: example_record_def ascii_def)
  show ?thesis using config_roundtrip [OF p] l p d by blast
qed

text \<open>
  A buffer of 256 bytes is not decoded at all: the field table needs 512 bytes, and the
  stream ends inside the \<open>URL\<close> field. A buffer of 512 null bytes is decoded, and encoding
  the result gives another buffer, with \<open>0xFF\<close> in the reserved region.
\<close>

theorem config_roundtrip_counterexample:
  "length short_record = 256 \<and>
   parse config_format short_record = Inl StreamError \<and>
   length zero_record = 512 \<and>
   (\<exists>config. parse config_format zero_record = Inr config \<and>
      build config_format config = Inr (replicate 384 0 @ replicate 128 0xFF) \<and>
      build config_format config \<noteq> Inr zero_record)"
proof -
  have 1: "parse config_format short_record = Inl StreamError"
    by (simp add: parse_def config_format_def short_record_def parse_con_def
        rstrip_null_def decode_ascii_def from_bytes_be_def)
  have "decodable config_format zero_record"
    by (simp add: config_format_def zero_record_def list_all_iff)
  then obtain config where p: "parse config_format zero_record = Inr config"
    using decodable_struct_parse [of config_format zero_record Map.empty]
    by (auto simp: parse_def)
  have b: "build config_format config = Inr (replicate 384 0 @ replicate 128 0xFF)"
    using config_rebuild [OF p] by (simp add: zero_record_def)
  have "replicate 384 (0::byte) @ replicate 128 0xFF \<noteq> zero_record"
  proof
    assume "replicate 384 (0::byte) @ replicate 128 0xFF = zero_record"
    then have "(replicate 384 (0::byte) @ replicate 128 0xFF) ! 400 = zero_record ! 400" by simp
    then show False by (simp add: zero_record_def nth_append)
  qed
  then show ?thesis using 1 p b by (auto simp: short_record_def zero_record_def)
qed

subsection \<open>C2: the width of the field table\<close>

text \<open>
  C2 (as amended). The declared widths of \<open>config_format\<close>, walked in declared order with a
  cursor starting at 0, end at cursor 512. A successful parse needs at least 512 bytes and
  leaves the stream exactly 512 bytes further on; every buffer \<open>build\<close> returns has
  exactly 512 bytes.
\<close>

theorem config_format_width:
  "walk config_format 0 = 512 \<and>
   (\<forall>data config rest.
      struct_parse config_format data Map.empty = Inr (config, rest) \<longrightarrow>
        512 \<le> length data \<and> rest = drop 512 data) \<and>
   (\<forall>config data. build config_format config = Inr data \<longrightarrow> length data = 512)"
proof -
  have 1: "512 \<le> length data \<and> rest = drop 512 data"
    if "struct_parse config_format data Map.empty = Inr (config, rest)" for data config rest
    using struct_parse_consumes [OF that] by (simp add: walk_config)
  have 2: "length data = 512" if "build config_format config = Inr data" for config data
    using struct_build_length [of config_format config "[]" data] that
    by (simp add: build_def walk_config)
  show ?thesis using walk_config 1 2 by blast
qed

text \<open>The example record is parsed to its end, and the parsed value builds to 512 bytes.\<close>

theorem config_format_width_witness:
  "walk config_format 0 = 512 \<and>
   (\<exists>config. struct_parse config_format example_record Map.empty = Inr (config, []) \<and>
      length example_record = 512 \<and>
      (\<exists>data. build config_format config = Inr data \<and> length data = 512))"
proof -
  obtain config where p: "struct_parse config_format example_record Map.empty = Inr (config, [])"
    using parse_example_record by blast
  then have "parse config_format example_record = Inr config" by (simp add: parse_def)
  then obtain data where b: "build config_format config = Inr data"
    using config_rebuild by blast
  have l: "length example_record = 512" by (simp add: example_record_def ascii_def)
  show ?thesis using config_format_width p b l by blast
qed

text \<open>The final cursor is not 256.\<close>

theorem config_format_width_256_counterexample:
  "walk config_format 0 \<noteq> 256"
  by (simp add: config_format_def)

subsection \<open>Auxiliary facts about the channel\<close>


lemma read_all_written: "read_all c = (response, c') \<Longrightarrow> written c' = written c"
  by (auto simp: read_all_def split: prod.splits)

lemma send_command_expected:
  assumes "read_all (write_conn (ascii ''<'' @ command @ ascii ''>>'') c) = (response, c')"
    and "expected \<noteq> []" and "response \<noteq> expected"
  shows "send_command command fmt (Some expected) c = (Inl (ExpectedResponse expected response), c')"
  using assms by (simp add: send_command_def)


subsection \<open>Auxiliary facts about \<open>set_config\<close>\<close>



lemma to_bytes_be_address:
  "address < 65536 \<Longrightarrow>
     to_bytes_be 2 (int address) = [word_of_nat (address div 256), word_of_nat (address mod 256)]"
proof -
  assume a: "address < 65536"
  have 2: "(2::nat) = Suc (Suc 0)" by simp
  have d: "int address div 256 mod 256 = int (address div 256)"
    using a by (simp add: zdiv_int)
  have m: "int address mod 256 = int (address mod 256)" by (simp add: zmod_int)
  show ?thesis unfolding 2 to_bytes_be.simps d m by simp
qed

lemma to_bytes_be_byte: "to_bytes_be 1 (uint (b::byte)) = [b]"
proof -
  have "uint b mod 256 = uint b" using uint_bounded [of b] by simp
  then show ?thesis by simp
qed

lemma write_config_byte_command:
  assumes "address < 65536"
  shows "write_config_byte (int address) (uint b) c =
     (case send_command (ascii ''WCFG'' @ [word_of_nat (address div 256),
              word_of_nat (address mod 256)] @ [b]) None (Some OK) c of
        (Inl e, c') \<Rightarrow> (Inl e, c')
      | (Inr r, c') \<Rightarrow> (Inr (), c'))"
proof -
  have h: "struct_pack Fmt_H (int address)
      = Inr [word_of_nat (address div 256), word_of_nat (address mod 256)]"
    using assms to_bytes_be_address [OF assms] by (simp add: struct_pack_def)
  have "uint b < 256" using uint_bounded [of b] by simp
  then have bb: "struct_pack Fmt_B (uint b) = Inr [b]"
    using to_bytes_be_byte [of b] by (simp add: struct_pack_def)
  show ?thesis unfolding write_config_byte_def h bb by simp
qed

lemma frame_write_command:
  "ascii ''<'' @ (ascii ''WCFG'' @ [hi, lo] @ [b]) @ ascii ''>>''
     = ascii ''<WCFG'' @ [hi, lo] @ [b] @ ascii ''>>''"
  by (simp add: ascii_def)

lemma write_config_byte_ack:
  assumes "address < 65536" and "incoming c = [0xAA] # [] # rest"
  shows "write_config_byte (int address) (uint b) c
     = (Inr (), c\<lparr>written := written c @ [write_command address b], incoming := rest\<rparr>)"
proof -
  let ?cmd = "ascii ''WCFG'' @ [word_of_nat (address div 256), word_of_nat (address mod 256)] @ [b]"
  have "read_all (write_conn (ascii ''<'' @ ?cmd @ ascii ''>>'') c)
      = ([0xAA], c\<lparr>written := written c @ [write_command address b], incoming := rest\<rparr>)"
    unfolding frame_write_command using assms(2)
    by (simp add: read_all_def write_conn_def write_command_def)
  then have "send_command ?cmd None (Some OK) c
      = (Inr (PyBytes [0xAA]), c\<lparr>written := written c @ [write_command address b], incoming := rest\<rparr>)"
    by (simp add: send_command_def OK_def)
  then show ?thesis unfolding write_config_byte_command [OF assms(1)] by simp
qed

lemma write_config_byte_nak:
  assumes "address < 65536" and "read_all_loop (incoming c) [] = (r, rest)" and "r \<noteq> [0xAA]"
  shows "write_config_byte (int address) (uint b) c
     = (Inl (ExpectedResponse [0xAA] r),
        c\<lparr>written := written c @ [write_command address b], incoming := rest\<rparr>)"
proof -
  let ?cmd = "ascii ''WCFG'' @ [word_of_nat (address div 256), word_of_nat (address mod 256)] @ [b]"
  have "read_all (write_conn (ascii ''<'' @ ?cmd @ ascii ''>>'') c)
      = (r, c\<lparr>written := written c @ [write_command address b], incoming := rest\<rparr>)"
    unfolding frame_write_command using assms(2)
    by (simp add: read_all_def write_conn_def write_command_def)
  then have "send_command ?cmd None (Some OK) c
      = (Inl (ExpectedResponse [0xAA] r),
         c\<lparr>written := written c @ [write_command address b], incoming := rest\<rparr>)"
    using assms(3) by (simp add: send_command_def OK_def)
  then show ?thesis unfolding write_config_byte_command [OF assms(1)] by simp
qed

lemma acks_Suc: "acks (Suc n) = [0xAA] # [] # acks n"
  by (simp add: acks_def)

lemma set_config_loop_acked:
  assumes "\<forall>e \<in> set es. fst e < 65536" and "incoming c = acks (length es) @ rest"
  shows "set_config_loop es c
     = (Inr (), c\<lparr>written := written c @ map (\<lambda>(a, b). write_command a b) es, incoming := rest\<rparr>)"
  using assms
proof (induction es arbitrary: c)
  case Nil
  then show ?case by (simp add: acks_def)
next
  case (Cons e es)
  obtain a b where e: "e = (a, b)" by (cases e)
  have a: "a < 65536" using Cons.prems(1) e by simp
  have i: "incoming c = [0xAA] # [] # (acks (length es) @ rest)"
    using Cons.prems(2) by (simp add: acks_Suc)
  let ?c = "c\<lparr>written := written c @ [write_command a b], incoming := acks (length es) @ rest\<rparr>"
  have w: "write_config_byte (int a) (uint b) c = (Inr (), ?c)"
    by (rule write_config_byte_ack [OF a i])
  have "set_config_loop es ?c
      = (Inr (), ?c\<lparr>written := written ?c @ map (\<lambda>(a, b). write_command a b) es, incoming := rest\<rparr>)"
    by (rule Cons.IH) (use Cons.prems(1) in simp_all)
  then show ?case unfolding e by (simp add: w)
qed

lemma set_config_loop_nak:
  assumes "\<forall>e \<in> set es. fst e < 65536" and "k < length es"
    and "incoming c = acks k @ bad" and "read_all_loop bad [] = (r, rest)" and "r \<noteq> [0xAA]"
  shows "set_config_loop es c
     = (Inl (ExpectedResponse [0xAA] r),
        c\<lparr>written := written c @ map (\<lambda>(a, b). write_command a b) (take (Suc k) es),
          incoming := rest\<rparr>)"
  using assms(1,2,3)
proof (induction k arbitrary: es c)
  case 0
  then obtain e es' where es: "es = e # es'" by (cases es) auto
  obtain a b where e: "e = (a, b)" by (cases e)
  have a: "a < 65536" using 0(1) es e by simp
  have "read_all_loop (incoming c) [] = (r, rest)" using 0(3) assms(4) by (simp add: acks_def)
  then have "write_config_byte (int a) (uint b) c
      = (Inl (ExpectedResponse [0xAA] r),
         c\<lparr>written := written c @ [write_command a b], incoming := rest\<rparr>)"
    using assms(5) by (rule write_config_byte_nak [OF a])
  then show ?case unfolding es e by simp
next
  case (Suc k)
  then obtain e es' where es: "es = e # es'" by (cases es) auto
  obtain a b where e: "e = (a, b)" by (cases e)
  have a: "a < 65536" using Suc.prems(1) es e by simp
  have i: "incoming c = [0xAA] # [] # (acks k @ bad)"
    using Suc.prems(3) by (simp add: acks_Suc)
  let ?c = "c\<lparr>written := written c @ [write_command a b], incoming := acks k @ bad\<rparr>"
  have w: "write_config_byte (int a) (uint b) c = (Inr (), ?c)"
    by (rule write_config_byte_ack [OF a i])
  have "set_config_loop es' ?c
      = (Inl (ExpectedResponse [0xAA] r),
         ?c\<lparr>written := written ?c @ map (\<lambda>(a, b). write_command a b) (take (Suc k) es'),
           incoming := rest\<rparr>)"
    by (rule Suc.IH) (use Suc.prems es in simp_all)
  then show ?case unfolding es e by (simp add: w)
qed

lemma map_enumerate:
  "map (\<lambda>(a, b). f a b) (take k (enumerate 0 xs)) = map (\<lambda>a. f a (xs ! a)) [0..<min k (length xs)]"
proof (rule nth_equalityI)
  show "length (map (\<lambda>(a, b). f a b) (take k (enumerate 0 xs)))
      = length (map (\<lambda>a. f a (xs ! a)) [0..<min k (length xs)])"
    by simp
next
  fix i assume "i < length (map (\<lambda>(a, b). f a b) (take k (enumerate 0 xs)))"
  then have i: "i < k" "i < length xs" by simp_all
  then show "map (\<lambda>(a, b). f a b) (take k (enumerate 0 xs)) ! i
      = map (\<lambda>a. f a (xs ! a)) [0..<min k (length xs)] ! i"
    by (simp add: nth_enumerate_eq)
qed

lemma enumerate_addresses: "\<forall>e \<in> set (enumerate 0 xs). fst e < length xs"
  by (auto simp: in_set_enumerate_eq)

lemma build_config_length: "build config_format config = Inr to_write \<Longrightarrow> length to_write = 512"
  using struct_build_length [of config_format config "[]" to_write]
  by (simp add: build_def walk_config)

lemma set_config_acked:
  assumes "build config_format config = Inr to_write" and "incoming c = acks 512 @ rest"
  shows "set_config config c
     = (Inr (), c\<lparr>written := written c
                     @ map (\<lambda>address. write_command address (to_write ! address)) [0..<512],
                   incoming := rest\<rparr>)"
proof -
  have l: "length to_write = 512" using assms(1) by (rule build_config_length)
  have a: "\<forall>e \<in> set (enumerate 0 to_write). fst e < 65536"
    using enumerate_addresses [of to_write] l by fastforce
  have "set_config_loop (enumerate 0 to_write) c
     = (Inr (), c\<lparr>written := written c @ map (\<lambda>(a, b). write_command a b) (enumerate 0 to_write),
                   incoming := rest\<rparr>)"
    by (rule set_config_loop_acked [OF a]) (use assms(2) l in simp)
  moreover have "map (\<lambda>(a, b). write_command a b) (enumerate 0 to_write)
      = map (\<lambda>address. write_command address (to_write ! address)) [0..<512]"
    using map_enumerate [of write_command 512 to_write] l by simp
  ultimately show ?thesis using assms(1) by (simp add: set_config_def)
qed

lemma set_config_nak:
  assumes "build config_format config = Inr to_write" and "k < 512"
    and "incoming c = acks k @ bad" and "read_all_loop bad [] = (r, rest)" and "r \<noteq> [0xAA]"
  shows "set_config config c
     = (Inl (ExpectedResponse [0xAA] r),
        c\<lparr>written := written c
               @ map (\<lambda>address. write_command address (to_write ! address)) [0..<Suc k],
          incoming := rest\<rparr>)"
proof -
  have l: "length to_write = 512" using assms(1) by (rule build_config_length)
  have a: "\<forall>e \<in> set (enumerate 0 to_write). fst e < 65536"
    using enumerate_addresses [of to_write] l by fastforce
  have "set_config_loop (enumerate 0 to_write) c
     = (Inl (ExpectedResponse [0xAA] r),
        c\<lparr>written := written c
               @ map (\<lambda>(a, b). write_command a b) (take (Suc k) (enumerate 0 to_write)),
          incoming := rest\<rparr>)"
    by (rule set_config_loop_nak [OF a _ assms(3,4,5)]) (use assms(2) l in simp)
  moreover have "map (\<lambda>(a, b). write_command a b) (take (Suc k) (enumerate 0 to_write))
      = map (\<lambda>address. write_command address (to_write ! address)) [0..<Suc k]"
    using map_enumerate [of write_command "Suc k" to_write] l assms(2) by (simp add: min_def)
  ultimately show ?thesis using assms(1) by (simp add: set_config_def)
qed

subsection \<open>C3: the commands \<open>set_config\<close> issues\<close>

lemma parse_example_config: "parse config_format example_record = Inr example_config"
proof -
  obtain config where "struct_parse config_format example_record Map.empty = Inr (config, [])"
    using parse_example_record by blast
  then have "parse config_format example_record = Inr config" by (simp add: parse_def)
  then show ?thesis by (simp add: example_config_def)
qed

lemma build_example_config: "build config_format example_config = Inr example_record"
proof -
  have "take 384 example_record @ replicate 128 0xFF = example_record"
    by (simp add: example_record_def ascii_def)
  then show ?thesis using config_rebuild [OF parse_example_config] by simp
qed

text \<open>
  C3 (as amended). For a configuration value that \<open>config_format\<close> builds, the buffer has
  512 bytes, and on a channel that acknowledges each command \<open>set_config\<close> issues exactly
  512 write commands, for the addresses 0, 1, ..., 511 in ascending order, each made of
  the address as two bytes, high byte first, and the byte of the buffer at that address.
  Each command waits for its acknowledgement: when the answer to the command for address
  \<open>k\<close> is not \<open>0xAA\<close>, the commands for the addresses above \<open>k\<close> are never issued.
\<close>

theorem set_config_commands:
  assumes "build config_format config = Inr to_write"
  shows "length to_write = 512 \<and>
    (\<forall>c rest. incoming c = acks 512 @ rest \<longrightarrow>
       set_config config c
         = (Inr (), c\<lparr>written := written c
                         @ map (\<lambda>address. write_command address (to_write ! address)) [0..<512],
                       incoming := rest\<rparr>)) \<and>
    (\<forall>c k bad r rest.
       k < 512 \<and> incoming c = acks k @ bad \<and> read_all_loop bad [] = (r, rest) \<and> r \<noteq> [0xAA] \<longrightarrow>
       written (snd (set_config config c))
         = written c @ map (\<lambda>address. write_command address (to_write ! address)) [0..<Suc k])"
proof -
  have 1: "length to_write = 512" using assms by (rule build_config_length)
  have 2: "set_config config c
         = (Inr (), c\<lparr>written := written c
                         @ map (\<lambda>address. write_command address (to_write ! address)) [0..<512],
                       incoming := rest\<rparr>)"
    if "incoming c = acks 512 @ rest" for c rest
    using assms that by (rule set_config_acked)
  have 3: "written (snd (set_config config c))
         = written c @ map (\<lambda>address. write_command address (to_write ! address)) [0..<Suc k]"
    if "k < 512" "incoming c = acks k @ bad" "read_all_loop bad [] = (r, rest)" "r \<noteq> [0xAA]"
    for c k bad r rest
    using set_config_nak [OF assms that] by simp
  show ?thesis using 1 2 3 by blast
qed

text \<open>The example configuration on a channel that acknowledges, and on one that fails at address 1.\<close>

theorem set_config_commands_witness:
  "length example_record = 512 \<and>
   set_config example_config \<lparr>written = [], incoming = acks 512\<rparr>
     = (Inr (), \<lparr>written = map (\<lambda>address. write_command address (example_record ! address)) [0..<512],
                incoming = []\<rparr>) \<and>
   written (snd (set_config example_config \<lparr>written = [], incoming = acks 1 @ [[0x55], []]\<rparr>))
     = [write_command 0 (example_record ! 0), write_command 1 (example_record ! 1)]"
proof -
  note t = set_config_commands [OF build_example_config]
  have a: "incoming \<lparr>written = [], incoming = acks 512\<rparr> = acks 512 @ []" by simp
  have b: "1 < (512::nat) \<and>
      incoming \<lparr>written = [], incoming = acks 1 @ [[0x55], []]\<rparr> = acks 1 @ [[0x55], []] \<and>
      read_all_loop [[0x55], []] [] = ([0x55], []) \<and> [0x55] \<noteq> [0xAA::byte]"
    by simp
  have u: "[0..<Suc 1] = [0, 1]" by (simp add: upt_rec)
  show ?thesis
    using t [THEN conjunct1] t [THEN conjunct2, THEN conjunct1, rule_format, OF a]
      t [THEN conjunct2, THEN conjunct2, rule_format, OF b]
    by (simp add: u)
qed

text \<open>
  On a channel that acknowledges everything, 512 commands are written, not 256; on one
  that acknowledges 256 commands and is silent afterwards, \<open>set_config\<close> fails, after
  having issued a command number 257 for address 256.
\<close>

theorem set_config_256_counterexample:
  "fst (set_config example_config \<lparr>written = [], incoming = acks 512\<rparr>) = Inr () \<and>
   length (written (snd (set_config example_config \<lparr>written = [], incoming = acks 512\<rparr>))) = 512 \<and>
   fst (set_config example_config \<lparr>written = [], incoming = acks 256\<rparr>)
     = Inl (ExpectedResponse [0xAA] []) \<and>
   length (written (snd (set_config example_config \<lparr>written = [], incoming = acks 256\<rparr>))) = 257"
proof -
  have a: "set_config example_config \<lparr>written = [], incoming = acks 512\<rparr>
     = (Inr (), \<lparr>written = map (\<lambda>address. write_command address (example_record ! address)) [0..<512],
                incoming = []\<rparr>)"
    using set_config_acked [OF build_example_config, of "\<lparr>written = [], incoming = acks 512\<rparr>" "[]"]
    by simp
  have b: "set_config example_config \<lparr>written = [], incoming = acks 256\<rparr>
     = (Inl (ExpectedResponse [0xAA] []),
        \<lparr>written = map (\<lambda>address. write_command address (example_record ! address)) [0..<Suc 256],
         incoming = []\<rparr>)"
    using set_config_nak [OF build_example_config, of 256
        "\<lparr>written = [], incoming = acks 256\<rparr>" "[]" "[]" "[]"]
    by simp
  show ?thesis unfolding a b by simp
qed

subsection \<open>C4: a failure partway through \<open>set_config\<close>\<close>

text \<open>
  C4 (as amended). When the commands for the addresses below \<open>k\<close> are acknowledged and
  the answer \<open>r\<close> to the command for address \<open>k\<close> is not \<open>0xAA\<close>, \<open>set_config\<close> stops
  there: it raises the error of that command, which carries the expected bytes and \<open>r\<close>,
  and nothing more is written or read (no later address, no rollback). The error does not
  hold the number of bytes written.
\<close>

theorem set_config_first_failure:
  assumes "build config_format config = Inr to_write" and "k < 512"
    and "incoming c = acks k @ bad" and "read_all_loop bad [] = (r, rest)" and "r \<noteq> [0xAA]"
  shows "set_config config c
     = (Inl (ExpectedResponse [0xAA] r),
        c\<lparr>written := written c
               @ map (\<lambda>address. write_command address (to_write ! address)) [0..<Suc k],
          incoming := rest\<rparr>)"
  using assms by (rule set_config_nak)

text \<open>A failure at address 2: three commands are written, the rest of the input is left unread.\<close>

theorem set_config_first_failure_witness:
  "set_config example_config \<lparr>written = [], incoming = acks 2 @ [[0x55], [], [0xAA], []]\<rparr>
     = (Inl (ExpectedResponse [0xAA] [0x55]),
        \<lparr>written = [write_command 0 (example_record ! 0), write_command 1 (example_record ! 1),
                    write_command 2 (example_record ! 2)],
         incoming = [[0xAA], []]\<rparr>)"
proof -
  have u: "[0..<3] = [0, 1, 2::nat]" by (simp add: upt_rec)
  show ?thesis
    using set_config_first_failure [OF build_example_config, of 2
        "\<lparr>written = [], incoming = acks 2 @ [[0x55], [], [0xAA], []]\<rparr>"
        "[[0x55], [], [0xAA], []]" "[0x55]" "[[0xAA], []]"]
    by (simp add: u)
qed

text \<open>
  Two failures, one at address 0 and one at address 300, raise the same error: the error
  cannot tell how many bytes had been written.
\<close>

theorem set_config_error_count_counterexample:
  "fst (set_config example_config \<lparr>written = [], incoming = [[0x55], []]\<rparr>)
     = Inl (ExpectedResponse [0xAA] [0x55]) \<and>
   length (written (snd (set_config example_config \<lparr>written = [], incoming = [[0x55], []]\<rparr>))) = 1 \<and>
   fst (set_config example_config \<lparr>written = [], incoming = acks 300 @ [[0x55], []]\<rparr>)
     = Inl (ExpectedResponse [0xAA] [0x55]) \<and>
   length (written (snd (set_config example_config
       \<lparr>written = [], incoming = acks 300 @ [[0x55], []]\<rparr>))) = 301"
proof -
  have a: "set_config example_config \<lparr>written = [], incoming = [[0x55], []]\<rparr>
     = (Inl (ExpectedResponse [0xAA] [0x55]),
        \<lparr>written = map (\<lambda>address. write_command address (example_record ! address)) [0..<Suc 0],
         incoming = []\<rparr>)"
    using set_config_nak [OF build_example_config, of 0
        "\<lparr>written = [], incoming = [[0x55], []]\<rparr>" "[[0x55], []]" "[0x55]" "[]"]
    by (simp add: acks_def)
  have b: "set_config example_config \<lparr>written = [], incoming = acks 300 @ [[0x55], []]\<rparr>
     = (Inl (ExpectedResponse [0xAA] [0x55]),
        \<lparr>written = map (\<lambda>address. write_command address (example_record ! address)) [0..<Suc 300],
         incoming = []\<rparr>)"
    using set_config_nak [OF build_example_config, of 300
        "\<lparr>written = [], incoming = acks 300 @ [[0x55], []]\<rparr>" "[[0x55], []]" "[0x55]" "[]"]
    by simp
  show ?thesis unfolding a b by simp
qed

subsection \<open>C5: an alarm-on command that is not acknowledged\<close>

text \<open>
  C5. Whatever the device answers to \<open><ALARM1>>\<close>, if the bytes read are not the single
  byte \<open>0xAA\<close> (no byte at all included), \<open>alarm_on\<close> raises the error that carries the
  expected bytes \<open>0xAA\<close> and the bytes received, and the one write of the command is the
  last thing written to the channel.
\<close>

theorem alarm_on_mismatch:
  assumes "read_all (write_conn (ascii ''<ALARM1>>'') c) = (response, c')"
    and "response \<noteq> [0xAA]"
  shows "alarm_on c = (Inl (ExpectedResponse [0xAA] response), c') \<and>
         written c' = written c @ [ascii ''<ALARM1>>'']"
proof -
  have f: "ascii ''<'' @ ascii ''ALARM1'' @ ascii ''>>'' = ascii ''<ALARM1>>''"
    by (simp add: ascii_def)
  have "send_command (ascii ''ALARM1'') None (Some OK) c
      = (Inl (ExpectedResponse OK response), c')"
    by (rule send_command_expected) (use assms f in \<open>simp_all add: OK_def\<close>)
  then have 1: "alarm_on c = (Inl (ExpectedResponse [0xAA] response), c')"
    by (simp add: alarm_on_def OK_def)
  have 2: "written c' = written c @ [ascii ''<ALARM1>>'']"
    using read_all_written [OF assms(1)] by (simp add: write_conn_def)
  show ?thesis using 1 2 by simp
qed

text \<open>The device answers \<open>0x55\<close>; the device answers nothing.\<close>

theorem alarm_on_mismatch_witness:
  "alarm_on \<lparr>written = [], incoming = [[0x55], []]\<rparr>
     = (Inl (ExpectedResponse [0xAA] [0x55]), \<lparr>written = [ascii ''<ALARM1>>''], incoming = []\<rparr>) \<and>
   alarm_on \<lparr>written = [], incoming = []\<rparr>
     = (Inl (ExpectedResponse [0xAA] []), \<lparr>written = [ascii ''<ALARM1>>''], incoming = []\<rparr>)"
proof -
  have 1: "read_all (write_conn (ascii ''<ALARM1>>'') \<lparr>written = [], incoming = [[0x55], []]\<rparr>)
      = ([0x55], \<lparr>written = [ascii ''<ALARM1>>''], incoming = []\<rparr>)"
    by (simp add: read_all_def write_conn_def)
  have 2: "read_all (write_conn (ascii ''<ALARM1>>'') \<lparr>written = [], incoming = []\<rparr>)
      = ([], \<lparr>written = [ascii ''<ALARM1>>''], incoming = []\<rparr>)"
    by (simp add: read_all_def write_conn_def)
  show ?thesis using alarm_on_mismatch [OF 1] alarm_on_mismatch [OF 2] by simp
qed

subsection \<open>C6: a text field one byte too long\<close>


lemma build_con_too_long:
  "n < length s \<Longrightarrow> \<exists>e. build_con (PaddedString n) (PyStr s) = Inl e"
  by (cases "encode_ascii s") (auto simp: build_con_def encode_ascii_def split: if_splits)

lemma build_con_overflow:
  "list_all (\<lambda>ch. ch < 128) s \<Longrightarrow> n < length s \<Longrightarrow>
     build_con (PaddedString n) (PyStr s) = Inl PaddingError"
  by (simp add: build_con_def encode_ascii_def)

lemma struct_build_field:
  "struct_build st obj acc = Inr d \<Longrightarrow> (name, sc) \<in> set st \<Longrightarrow> \<not> flagbuildnone sc \<Longrightarrow>
     \<exists>v data. obj name = Some v \<and> build_con sc v = Inr data"
proof (induction st arbitrary: acc)
  case Nil
  then show ?case by simp
next
  case (Cons f st)
  obtain nm sc' where f: "f = (nm, sc')" by (cases f)
  from Cons.prems(1) obtain v data where
    v: "flagbuildnone sc' \<or> obj nm = Some v" and
    b: "build_con sc' v = Inr data" and
    q: "struct_build st obj (acc @ data) = Inr d"
    unfolding f by (auto split: sum.splits if_splits option.splits)
  show ?case
  proof (cases "(name, sc) = f")
    case True
    then show ?thesis using v b Cons.prems(3) f by auto
  next
    case False
    then have "(name, sc) \<in> set st" using Cons.prems(2) by simp
    then show ?thesis using Cons.IH [OF q _ Cons.prems(3)] by blast
  qed
qed

lemma struct_build_overflow:
  assumes "distinct (map fst st)" and "(name, PaddedString n) \<in> set st"
    and "struct_build st obj acc = Inr d"
    and "list_all (\<lambda>ch. ch < 128) s" and "n < length s"
  shows "struct_build st (obj(name \<mapsto> PyStr s)) acc = Inl PaddingError"
  using assms(1,2,3)
proof (induction st arbitrary: acc)
  case Nil
  then show ?case by simp
next
  case (Cons f st)
  obtain nm sc where f: "f = (nm, sc)" by (cases f)
  have nin: "nm \<notin> fst ` set st" and d: "distinct (map fst st)"
    using Cons.prems(1) f by auto
  show ?case
  proof (cases "nm = name")
    case True
    have "(name, PaddedString n) \<notin> set st" using nin True by force
    then have sc: "sc = PaddedString n" using Cons.prems(2) f True by auto
    show ?thesis unfolding f sc True
      using build_con_overflow [OF assms(4,5)] by simp
  next
    case False
    then have m: "(name, PaddedString n) \<in> set st" using Cons.prems(2) f by auto
    from Cons.prems(3) obtain subobj data where
      l: "(if flagbuildnone sc then Inr (case obj nm of None \<Rightarrow> PyNone | Some v \<Rightarrow> v)
           else (case obj nm of None \<Rightarrow> Inl KeyError | Some v \<Rightarrow> Inr v)) = Inr subobj" and
      b: "build_con sc subobj = Inr data" and
      q: "struct_build st obj (acc @ data) = Inr d"
      unfolding f by (auto split: sum.splits)
    have "struct_build (f # st) (obj(name \<mapsto> PyStr s)) acc
        = struct_build st (obj(name \<mapsto> PyStr s)) (acc @ data)"
      unfolding f using False l b by (auto split: if_splits option.splits)
    also have "\<dots> = Inl PaddingError" by (rule Cons.IH [OF d m q])
    finally show ?thesis .
  qed
qed

text \<open>
  C6. Let \<open>name\<close> be one of the text fields of \<open>config_format\<close>, of declared width \<open>n\<close>, and
  \<open>s\<close> a text of \<open>n + 1\<close> characters. Building any configuration that holds \<open>s\<close> under
  \<open>name\<close> raises an error, so no buffer, partial or whole, is returned. When the
  configuration is otherwise one that builds and \<open>s\<close> is ASCII (one byte for each
  character), the error is construct's \<open>PaddingError\<close>, the overflow error of the field.
\<close>

theorem text_field_overflow:
  assumes "(name, PaddedString n) \<in> set config_format"
    and "length s = n + 1"
  shows "(\<forall>config. config name = Some (PyStr s) \<longrightarrow>
            (\<exists>e. build config_format config = Inl e)) \<and>
         (\<forall>config buf. build config_format config = Inr buf \<and> list_all (\<lambda>ch. ch < 128) s \<longrightarrow>
            build config_format (config(name \<mapsto> PyStr s)) = Inl PaddingError)"
proof -
  have n: "n < length s" using assms(2) by simp
  have 1: "\<exists>e. build config_format config = Inl e" if c: "config name = Some (PyStr s)" for config
  proof (cases "build config_format config")
    case (Inl e)
    then show ?thesis by blast
  next
    case (Inr buf)
    then have "struct_build config_format config [] = Inr buf" by (simp add: build_def)
    then have "\<exists>v data. config name = Some v \<and> build_con (PaddedString n) v = Inr data"
      using assms(1) by (rule struct_build_field) simp
    then show ?thesis using c build_con_too_long [OF n] by auto
  qed
  have 2: "build config_format (config(name \<mapsto> PyStr s)) = Inl PaddingError"
    if "build config_format config = Inr buf" "list_all (\<lambda>ch. ch < 128) s" for config buf
    using struct_build_overflow [OF distinct_config assms(1) _ that(2) n] that(1)
    by (simp add: build_def)
  show ?thesis using 1 2 by blast
qed

text \<open>The example configuration builds; with an SSID of 65 letters \<open>A\<close> it does not.\<close>

theorem text_field_overflow_witness:
  "(''SSID'', PaddedString 64) \<in> set config_format \<and>
   length (replicate 65 (65::nat)) = 64 + 1 \<and>
   build config_format example_config = Inr example_record \<and>
   build config_format (example_config(''SSID'' \<mapsto> PyStr (replicate 65 65))) = Inl PaddingError"
proof -
  have m: "(''SSID'', PaddedString 64) \<in> set config_format" by (simp add: config_format_def)
  have l: "length (replicate 65 (65::nat)) = 64 + 1" by simp
  have a: "list_all (\<lambda>ch. ch < 128) (replicate 65 (65::nat))" by (simp add: list_all_iff)
  show ?thesis
    using text_field_overflow [OF m l, THEN conjunct2, rule_format, of example_config example_record]
      build_example_config m a
    by simp
qed

subsection \<open>Auxiliary facts about \<open>hex_byte\<close>\<close>


lemma hex_byte_ok: "0 \<le> v \<Longrightarrow> v < 128 \<Longrightarrow> hex_byte v = Inr [word_of_int v]"
  by (simp add: hex_byte_def chr_def encode_ascii_def)

lemma hex_byte_high: "128 \<le> v \<Longrightarrow> \<exists>e. hex_byte v = Inl e"
  by (auto simp: hex_byte_def chr_def encode_ascii_def)

lemma hex_byte_Inr: "hex_byte v = Inr bs \<Longrightarrow> 0 \<le> v \<and> v < 128 \<and> bs = [word_of_int v]"
  by (auto simp: hex_byte_def chr_def encode_ascii_def nat_less_iff split: if_splits)

subsection \<open>C7: dates and times as six raw bytes\<close>


lemma set_datetime_in_range:
  assumes "0 \<le> year dt - 2000 \<and> year dt - 2000 < 128" "0 \<le> month dt \<and> month dt < 128"
    "0 \<le> day dt \<and> day dt < 128" "0 \<le> hour dt \<and> hour dt < 128"
    "0 \<le> minute dt \<and> minute dt < 128" "0 \<le> second dt \<and> second dt < 128"
  shows "set_datetime dt c
     = send_command (ascii ''SETDATETIME'' @ datetime_bytes dt) None (Some OK) c"
proof -
  have "hex_byte (year dt - 2000) = Inr [word_of_int (year dt - 2000)]"
    "hex_byte (month dt) = Inr [word_of_int (month dt)]"
    "hex_byte (day dt) = Inr [word_of_int (day dt)]"
    "hex_byte (hour dt) = Inr [word_of_int (hour dt)]"
    "hex_byte (minute dt) = Inr [word_of_int (minute dt)]"
    "hex_byte (second dt) = Inr [word_of_int (second dt)]"
    using assms by (simp_all add: hex_byte_ok)
  then show ?thesis by (simp add: set_datetime_def datetime_bytes_def)
qed





subsection \<open>C8: the result of a command with a response format\<close>

lemma length_unpack_fields: "length (unpack_fields fmt data) = value_count fmt"
  by (induction fmt data rule: unpack_fields.induct) (simp_all add: value_count_def)

text \<open>
  C8. When the response passes the check against the expected response and has the size
  of the format, \<open>send_command\<close> returns the one unpacked value itself (an \<open>int\<close>) for a
  format with exactly one field, and the tuple of all unpacked values for every other
  format.
\<close>

theorem send_command_scalar:
  assumes "read_all (write_conn (ascii ''<'' @ command @ ascii ''>>'') c) = (response, c')"
    and "length response = calcsize fmt"
    and "expected = None \<or> expected = Some [] \<or> expected = Some response"
  shows "(value_count fmt = 1 \<longrightarrow>
            (\<exists>v. unpack_fields fmt response = [v] \<and>
                 send_command command (Some fmt) expected c = (Inr (PyInt v), c'))) \<and>
         (value_count fmt \<noteq> 1 \<longrightarrow>
            send_command command (Some fmt) expected c
              = (Inr (PyTuple (unpack_fields fmt response)), c') \<and>
            length (unpack_fields fmt response) = value_count fmt)"
proof -
  let ?u = "unpack_fields fmt response"
  have u: "struct_unpack fmt response = Inr ?u" using assms(2) by (simp add: struct_unpack_def)
  have sc: "send_command command (Some fmt) expected c
      = (if length ?u = 1 then (Inr (PyInt (hd ?u)), c') else (Inr (PyTuple ?u), c'))"
    using assms(3) u by (auto simp: send_command_def Let_def assms(1))
  have one: "\<exists>v. ?u = [v] \<and> hd ?u = v" if "length ?u = 1"
    using that by (cases ?u) simp_all
  show ?thesis unfolding sc using one length_unpack_fields [of fmt response] by auto
qed

text \<open>\<open>'!I'\<close> on four bytes gives the number 258; \<open>'!HHHx'\<close> on seven bytes gives a triple.\<close>

theorem send_command_scalar_witness:
  "send_command (ascii ''GETCPM'') (Some [Fmt_I]) None
       \<lparr>written = [], incoming = [[0], [0], [1], [2], []]\<rparr>
     = (Inr (PyInt 258), \<lparr>written = [ascii ''<GETCPM>>''], incoming = []\<rparr>) \<and>
   send_command (ascii ''GETGYRO'') (Some [Fmt_H, Fmt_H, Fmt_H, Fmt_x]) None
       \<lparr>written = [], incoming = [[0], [1], [0], [2], [0], [3], [0xAA], []]\<rparr>
     = (Inr (PyTuple [1, 2, 3]), \<lparr>written = [ascii ''<GETGYRO>>''], incoming = []\<rparr>)"
proof -
  have 1: "read_all (write_conn (ascii ''<'' @ ascii ''GETCPM'' @ ascii ''>>'')
        \<lparr>written = [], incoming = [[0], [0], [1], [2], []]\<rparr>)
      = ([0, 0, 1, 2], \<lparr>written = [ascii ''<GETCPM>>''], incoming = []\<rparr>)"
    by (simp add: read_all_def write_conn_def ascii_def)
  have 2: "read_all (write_conn (ascii ''<'' @ ascii ''GETGYRO'' @ ascii ''>>'')
        \<lparr>written = [], incoming = [[0], [1], [0], [2], [0], [3], [0xAA], []]\<rparr>)
      = ([0, 1, 0, 2, 0, 3, 0xAA], \<lparr>written = [ascii ''<GETGYRO>>''], incoming = []\<rparr>)"
    by (simp add: read_all_def write_conn_def ascii_def)
  have a: "value_count [Fmt_I] = 1" "length [0::byte, 0, 1, 2] = calcsize [Fmt_I]"
    "unpack_fields [Fmt_I] [0, 0, 1, 2] = [258]"
    by (simp_all add: value_count_def calcsize_def from_bytes_be_def)
  have b: "value_count [Fmt_H, Fmt_H, Fmt_H, Fmt_x] \<noteq> 1"
    "length [0::byte, 1, 0, 2, 0, 3, 0xAA] = calcsize [Fmt_H, Fmt_H, Fmt_H, Fmt_x]"
    "unpack_fields [Fmt_H, Fmt_H, Fmt_H, Fmt_x] [0, 1, 0, 2, 0, 3, 0xAA] = [1, 2, 3]"
    by (simp_all add: value_count_def calcsize_def from_bytes_be_def)
  show ?thesis
    using send_command_scalar [OF 1 a(2), of None] send_command_scalar [OF 2 b(2), of None] a b
    by simp
qed

subsection \<open>C9: the Wi-Fi association status\<close>


lemma at_status:
  "at_command (str_of ''CWJAP?'') status_port
     = (Inr [str_of ''AT+CWJAP?'', str_of status_line, [], str_of ''OK'', []],
        \<lparr>written = [ascii ''<AT+CWJAP?>>''], incoming = []\<rparr>)"
  by code_simp

text \<open>
  C9. \<open>get_wifi_status\<close> does not parse the status line into its nine named fields. On
  the answer \<open>+CWJAP:"Net1","aa:bb:cc:dd:ee:ff",6,-45,0,0,0,0,0\<close> the record it returns
  holds the network name only, every other field being \<open>None\<close>: the reader is given the
  line itself where it expects a sequence of lines, reads each character as a line, and
  ends the first record at the end of the "line" that closes the first field.
\<close>

theorem get_wifi_status_first_field_only:
  "get_wifi_status status_port
     = (Inr [(Some ''ssid'', Text (str_of ''Net1'')), (Some ''bssid'', Missing),
             (Some ''channel'', Missing), (Some ''rssi'', Missing), (Some ''pci_en'', Missing),
             (Some ''reconn_interval'', Missing), (Some ''listen_interval'', Missing),
             (Some ''scan_mode'', Missing), (Some ''pmf'', Missing)],
        \<lparr>written = [ascii ''<AT+CWJAP?>>''], incoming = []\<rparr>)"
  by code_simp

text \<open>
  The same reader on the list that holds the line, the way \<open>list_wifi_networks\<close> calls
  it, yields the nine fields the claim describes.
\<close>

lemma dictreader_status_line:
  "dictreader_next [drop 7 (str_of status_line)] AP_STATUS_FIELDS
     = Inr ([(Some ''ssid'', Text (str_of ''Net1'')),
             (Some ''bssid'', Text (str_of ''aa:bb:cc:dd:ee:ff'')),
             (Some ''channel'', Text (str_of ''6'')), (Some ''rssi'', Text (str_of ''-45'')),
             (Some ''pci_en'', Text (str_of ''0'')), (Some ''reconn_interval'', Text (str_of ''0'')),
             (Some ''listen_interval'', Text (str_of ''0'')), (Some ''scan_mode'', Text (str_of ''0'')),
             (Some ''pmf'', Text (str_of ''0''))], [])"
  by code_simp

text \<open>
  Whatever the device answers, a record read from one-character lines has at most two
  fields: the record \<open>get_wifi_status\<close> returns never holds a channel, a signal strength
  or one of the five fields after them.
\<close>

lemma reader_loop_quoted:
  assumes "list_all (\<lambda>l. length l = 1) ls" and "state r = IN_QUOTED_FIELD" and "saved r = []"
    and "reader_loop ls r = Inr (row, rest)"
  shows "length row = 1 \<and> list_all (\<lambda>l. length l = 1) rest"
  using assms
proof (induction ls arbitrary: r)
  case Nil
  then show ?case by (auto simp: parse_save_field_def)
next
  case (Cons l ls)
  then obtain ch where l: "l = [ch]" by (cases l) auto
  have ls: "list_all (\<lambda>l. length l = 1) ls" using Cons.prems(1) by simp
  show ?case
  proof (cases "ch = 34")
    case True
    then have e: "reader_loop (l # ls) r = Inr ([field r], ls)"
      unfolding l using Cons.prems(2,3)
      by (simp add: parse_process_char_def parse_save_field_def)
    have "row = [field r] \<and> rest = ls" using Cons.prems(4) unfolding e by simp
    then show ?thesis using ls by simp
  next
    case False
    let ?r = "parse_add_char r ch"
    have e: "reader_loop (l # ls) r = reader_loop ls ?r"
      unfolding l using Cons.prems(2) False
      by (simp add: parse_process_char_def parse_add_char_def)
    have "reader_loop ls ?r = Inr (row, rest)" using Cons.prems(4) unfolding e .
    moreover have "state ?r = IN_QUOTED_FIELD" "saved ?r = []"
      using Cons.prems(2,3) by (simp_all add: parse_add_char_def)
    ultimately show ?thesis using Cons.IH [OF ls] by blast
  qed
qed

lemma reader_next_chars:
  assumes "list_all (\<lambda>l. length l = 1) ls" and "reader_next ls = Inr (row, rest)"
  shows "length row \<le> 2 \<and> list_all (\<lambda>l. length l = 1) rest"
proof (cases ls)
  case Nil
  then show ?thesis using assms(2) by (simp add: reader_next_def)
next
  case (Cons l ls')
  then obtain ch where l: "l = [ch]" using assms(1) by (cases l) auto
  have ls': "list_all (\<lambda>l. length l = 1) ls'" using assms(1) Cons by simp
  let ?r0 = "\<lparr>state = START_RECORD, saved = [], field = []\<rparr>"
  show ?thesis
  proof (cases "ch = 34")
    case True
    have e: "reader_loop (l # ls') ?r0 = reader_loop ls' (?r0\<lparr>state := IN_QUOTED_FIELD\<rparr>)"
      unfolding l using True by (simp add: parse_process_char_def start_field_def)
    have "reader_loop ls' (?r0\<lparr>state := IN_QUOTED_FIELD\<rparr>) = Inr (row, rest)"
      using assms(2) unfolding reader_next_def Cons e .
    then show ?thesis using reader_loop_quoted [OF ls', of "?r0\<lparr>state := IN_QUOTED_FIELD\<rparr>"]
      by simp
  next
    case False
    then have "\<exists>row'. reader_loop (l # ls') ?r0 = Inr (row', ls') \<and> length row' \<le> 2"
      unfolding l
      by (simp add: parse_process_char_def start_field_def parse_save_field_def
          parse_add_char_def)
    then obtain row' where e: "reader_loop (l # ls') ?r0 = Inr (row', ls')" and r: "length row' \<le> 2"
      by blast
    have "row = row' \<and> rest = ls'" using assms(2) unfolding reader_next_def Cons e by simp
    then show ?thesis using r ls' by simp
  qed
qed

lemma dictreader_next_chars:
  "list_all (\<lambda>l. length l = 1) ls \<Longrightarrow> dictreader_next ls fieldnames = Inr (d, rest) \<Longrightarrow>
     \<exists>row. d = dict_of_row fieldnames row \<and> row \<noteq> [] \<and> length row \<le> 2"
proof (induction ls fieldnames rule: dictreader_next.induct)
  case (1 lines fieldnames)
  show ?case
  proof (cases "reader_next lines")
    case (Inl e)
    then show ?thesis using "1.prems"(2) by (subst (asm) dictreader_next.simps) simp
  next
    case (Inr x)
    obtain row later where x: "x = (row, later)" by (cases x)
    note rn = reader_next_chars [OF "1.prems"(1) Inr [unfolded x]]
    show ?thesis
    proof (cases "row = []")
      case True
      have "dictreader_next lines fieldnames = dictreader_next later fieldnames"
        by (subst dictreader_next.simps) (simp add: Inr x True)
      then have "dictreader_next later fieldnames = Inr (d, rest)" using "1.prems"(2) by simp
      then show ?thesis using "1.IH" [OF Inr x [symmetric] True] rn by blast
    next
      case False
      have "dictreader_next lines fieldnames = Inr (dict_of_row fieldnames row, later)"
        by (subst dictreader_next.simps) (simp add: Inr x False)
      then show ?thesis using "1.prems"(2) False rn by auto
    qed
  qed
qed

lemma dict_of_row_short:
  assumes "row \<noteq> []" and "length row \<le> 2"
  shows "drop 2 (dict_of_row AP_STATUS_FIELDS row)
     = [(Some ''channel'', Missing), (Some ''rssi'', Missing), (Some ''pci_en'', Missing),
        (Some ''reconn_interval'', Missing), (Some ''listen_interval'', Missing),
        (Some ''scan_mode'', Missing), (Some ''pmf'', Missing)]"
proof -
  from assms obtain a where "row = [a] \<or> (\<exists>b. row = [a, b])"
    by (cases row; cases "tl row") auto
  then show ?thesis by (auto simp: dict_of_row_def AP_STATUS_FIELDS_def)
qed

lemma get_wifi_status_never_complete:
  assumes "get_wifi_status c = (Inr d, c')"
  shows "drop 2 d
     = [(Some ''channel'', Missing), (Some ''rssi'', Missing), (Some ''pci_en'', Missing),
        (Some ''reconn_interval'', Missing), (Some ''listen_interval'', Missing),
        (Some ''scan_mode'', Missing), (Some ''pmf'', Missing)]"
proof -
  from assms obtain response later where
    "dictreader_next (map (\<lambda>ch. [ch]) (drop 7 (response ! 1))) AP_STATUS_FIELDS = Inr (d, later)"
    by (auto simp: get_wifi_status_def split: prod.splits sum.splits if_splits)
  moreover have "list_all (\<lambda>l. length l = 1) (map (\<lambda>ch. [ch]) (drop 7 (response ! 1)))"
    by (simp add: list_all_iff)
  ultimately obtain row where "d = dict_of_row AP_STATUS_FIELDS row" "row \<noteq> []" "length row \<le> 2"
    using dictreader_next_chars by blast
  then show ?thesis using dict_of_row_short by simp
qed

subsection \<open>C10: the range of \<open>hex_byte\<close>\<close>

text \<open>
  C10 (as amended). \<open>hex_byte v\<close> returns bytes exactly when \<open>0 \<le> v \<le> 127\<close>, and then the
  single byte \<open>v\<close>; it raises for \<open>v \<ge> 128\<close>. So \<open>set_datetime\<close> raises for every
  \<open>datetime\<close> of a year from 2128 on, and \<open>set_date_yy\<close> for every year offset from 128
  on, with the channel untouched. When every component (the year counted from 2000) lies
  between 0 and 127, no \<open>hex_byte\<close> raises: the call is the one \<open>send_command\<close> of the
  assembled bytes.
\<close>

theorem hex_byte_range:
  "(\<exists>bs. hex_byte v = Inr bs) = (0 \<le> v \<and> v < 128) \<and>
   (0 \<le> v \<and> v < 128 \<longrightarrow> hex_byte v = Inr [word_of_int v]) \<and>
   (128 \<le> v \<longrightarrow> (\<exists>e. hex_byte v = Inl e)) \<and>
   (2128 \<le> year dt \<longrightarrow> (\<exists>e. set_datetime dt c = (Inl e, c))) \<and>
   (128 \<le> v \<longrightarrow> (\<exists>e. set_date_yy v c = (Inl e, c))) \<and>
   (0 \<le> year dt - 2000 \<and> year dt - 2000 < 128 \<and> 0 \<le> month dt \<and> month dt < 128 \<and>
    0 \<le> day dt \<and> day dt < 128 \<and> 0 \<le> hour dt \<and> hour dt < 128 \<and>
    0 \<le> minute dt \<and> minute dt < 128 \<and> 0 \<le> second dt \<and> second dt < 128 \<longrightarrow>
      set_datetime dt c
        = send_command (ascii ''SETDATETIME'' @ datetime_bytes dt) None (Some OK) c) \<and>
   (0 \<le> v \<and> v < 128 \<longrightarrow>
      set_date_yy v c
        = send_command (ascii ''SETDATEYY'' @ [word_of_int v]) (Some [Fmt_B]) (Some OK) c)"
proof -
  have 1: "(\<exists>bs. hex_byte v = Inr bs) = (0 \<le> v \<and> v < 128)"
    using hex_byte_Inr [of v] hex_byte_ok [of v] by blast
  have 2: "hex_byte v = Inr [word_of_int v]" if "0 \<le> v \<and> v < 128"
    using that by (simp add: hex_byte_ok)
  have 3: "\<exists>e. hex_byte v = Inl e" if "128 \<le> v" using that by (rule hex_byte_high)
  have 4: "\<exists>e. set_datetime dt c = (Inl e, c)" if "2128 \<le> year dt"
  proof -
    have "128 \<le> year dt - 2000" using that by simp
    then obtain e where "hex_byte (year dt - 2000) = Inl e" using hex_byte_high by blast
    then show ?thesis by (simp add: set_datetime_def)
  qed
  have 5: "\<exists>e. set_date_yy v c = (Inl e, c)" if h: "128 \<le> v"
  proof -
    obtain e where "hex_byte v = Inl e" using h hex_byte_high by blast
    then show ?thesis by (simp add: set_date_yy_def)
  qed
  have 6: "set_datetime dt c
        = send_command (ascii ''SETDATETIME'' @ datetime_bytes dt) None (Some OK) c"
    if "0 \<le> year dt - 2000 \<and> year dt - 2000 < 128 \<and> 0 \<le> month dt \<and> month dt < 128 \<and>
        0 \<le> day dt \<and> day dt < 128 \<and> 0 \<le> hour dt \<and> hour dt < 128 \<and>
        0 \<le> minute dt \<and> minute dt < 128 \<and> 0 \<le> second dt \<and> second dt < 128"
    by (rule set_datetime_in_range) (use that in simp_all)
  have 7: "set_date_yy v c
        = send_command (ascii ''SETDATEYY'' @ [word_of_int v]) (Some [Fmt_B]) (Some OK) c"
    if "0 \<le> v \<and> v < 128"
    using that by (simp add: set_date_yy_def hex_byte_ok)
  show ?thesis using 1 2 3 4 5 6 7 by blast
qed

text \<open>The values 24 and 200, the years 2024 and 2200.\<close>

theorem hex_byte_range_witness:
  "hex_byte 24 = Inr [24] \<and> hex_byte 200 = Inl UnicodeEncodeError \<and>
   set_datetime \<lparr>year = 2200, month = 1, day = 1, hour = 0, minute = 0, second = 0\<rparr> fresh
     = (Inl UnicodeEncodeError, fresh) \<and>
   set_date_yy 200 fresh = (Inl UnicodeEncodeError, fresh) \<and>
   set_datetime \<lparr>year = 2024, month = 11, day = 4, hour = 13, minute = 9, second = 30\<rparr> fresh
     = (Inr (PyBytes [0xAA]),
        \<lparr>written = [ascii ''<SETDATETIME'' @ [24, 11, 4, 13, 9, 30] @ ascii ''>>''], incoming = []\<rparr>) \<and>
   set_date_yy 24 fresh
     = (Inr (PyInt 170), \<lparr>written = [ascii ''<SETDATEYY'' @ [24] @ ascii ''>>''], incoming = []\<rparr>)"
proof -
  let ?late = "\<lparr>year = 2200, month = 1, day = 1, hour = 0, minute = 0, second = 0\<rparr>"
  let ?dt = "\<lparr>year = 2024, month = 11, day = 4, hour = 13, minute = 9, second = 30\<rparr>"
  note t = hex_byte_range [of 24 ?dt fresh]
  note u = hex_byte_range [of 200 ?late fresh]
  have e: "hex_byte 200 = Inl UnicodeEncodeError"
    using u [THEN conjunct2, THEN conjunct2, THEN conjunct1]
    by (auto simp: hex_byte_def chr_def encode_ascii_def)
  have l: "set_datetime ?late fresh = (Inl UnicodeEncodeError, fresh)"
    using u [THEN conjunct2, THEN conjunct2, THEN conjunct2, THEN conjunct1]
    by (auto simp: set_datetime_def hex_byte_def chr_def encode_ascii_def)
  have y: "set_date_yy 200 fresh = (Inl UnicodeEncodeError, fresh)"
    using u [THEN conjunct2, THEN conjunct2, THEN conjunct2, THEN conjunct2, THEN conjunct1]
    by (auto simp: set_date_yy_def hex_byte_def chr_def encode_ascii_def)
  have b: "datetime_bytes ?dt = [24, 11, 4, 13, 9, 30]" by (simp add: datetime_bytes_def)
  have s: "send_command (ascii ''SETDATETIME'' @ [24, 11, 4, 13, 9, 30]) None (Some OK) fresh
     = (Inr (PyBytes [0xAA]),
        \<lparr>written = [ascii ''<SETDATETIME'' @ [24, 11, 4, 13, 9, 30] @ ascii ''>>''], incoming = []\<rparr>)"
    by (simp add: send_command_def fresh_def read_all_def write_conn_def OK_def ascii_def)
  have s2: "send_command (ascii ''SETDATEYY'' @ [24]) (Some [Fmt_B]) (Some OK) fresh
     = (Inr (PyInt 170), \<lparr>written = [ascii ''<SETDATEYY'' @ [24] @ ascii ''>>''], incoming = []\<rparr>)"
    by (simp add: send_command_def fresh_def read_all_def write_conn_def OK_def ascii_def
        struct_unpack_def calcsize_def from_bytes_be_def)
  show ?thesis
    using t [THEN conjunct2, THEN conjunct1]
      t [THEN conjunct2, THEN conjunct2, THEN conjunct2, THEN conjunct2, THEN conjunct2, THEN conjunct1]
      t [THEN conjunct2, THEN conjunct2, THEN conjunct2, THEN conjunct2, THEN conjunct2, THEN conjunct2]
      e l y
    by (simp add: b s s2)
qed

text \<open>
  Below 128 is not enough: for the last day of 1999 every component is below 128, the
  year counted from 2000 being \<open>-1\<close>, and \<open>chr(-1)\<close> raises \<open>ValueError\<close> in
  \<open>set_datetime\<close>, in \<open>set_date_yy\<close> and so in \<open>set_date\<close>.
\<close>

theorem hex_byte_negative_counterexample:
  "valid_datetime y1999 \<and>
   year y1999 - 2000 < 128 \<and> month y1999 < 128 \<and> day y1999 < 128 \<and>
   hour y1999 < 128 \<and> minute y1999 < 128 \<and> second y1999 < 128 \<and>
   set_datetime y1999 fresh = (Inl ChrValueError, fresh) \<and>
   set_date_yy (year y1999 - 2000) fresh = (Inl ChrValueError, fresh) \<and>
   set_date y1999 fresh = (Inl ChrValueError, fresh)"
  by (simp add: y1999_def valid_datetime_def days_in_month_def set_datetime_def set_date_yy_def
      set_date_def hex_byte_def chr_def)

end
